theory Spec2Isabelle
  imports Complex_Main
begin

section \<open>Exceptions and Python arithmetic\<close>

text \<open>
  The notebooks are Python with exact arithmetic here: a float is a real number, and
  floating-point rounding, overflow and NaN are left out.  Every exception the notebook
  code itself can raise is a value.  Framework calls are taken to return; the one
  exception kept is the \<open>RuntimeError\<close> of a maximum over an empty row.
\<close>

datatype error = ZeroDivisionError | RuntimeError

definition truediv :: "real \<Rightarrow> real \<Rightarrow> error + real" where
  \<comment> \<open>Python's \<open>a / b\<close>\<close>
  "truediv a b = (if b = 0 then Inl ZeroDivisionError else Inr (a / b))"

definition float_pow :: "real \<Rightarrow> real \<Rightarrow> error + complex" where
  \<comment> \<open>Python's \<open>x ** y\<close> on floats: a negative base with a fractional exponent gives the
     complex number of modulus \<open>|x| ** y\<close> and argument \<open>pi * y\<close>\<close>
  "float_pow x y =
     (if x = 0 \<and> y < 0 then Inl ZeroDivisionError
      else if x < 0 \<and> real_of_int \<lfloor>y\<rfloor> \<noteq> y
        then Inr (complex_of_real (\<bar>x\<bar> powr y) * cis (pi * y))
      else if x < 0 then Inr (complex_of_real (x powi \<lfloor>y\<rfloor>))
      else if y = 0 then Inr 1
      else Inr (complex_of_real (x powr y)))"

definition py_slice :: "'b list \<Rightarrow> int \<Rightarrow> int \<Rightarrow> 'b list" where
  \<comment> \<open>Python's \<open>xs[a:b]\<close>: a negative bound counts from the end, both are clipped\<close>
  "py_slice xs a b =
     (let n = int (length xs);
          a' = (if a < 0 then max 0 (a + n) else min a n);
          b' = (if b < 0 then max 0 (b + n) else min b n)
      in drop (nat a') (take (nat b') xs))"

fun str_in :: "string \<Rightarrow> string \<Rightarrow> bool" where
  \<comment> \<open>Python's \<open>sub in s\<close> on strings\<close>
  "str_in sub [] = (sub = [])"
| "str_in sub (c # s) = (take (length sub) (c # s) = sub \<or> str_in sub s)"

section \<open>The framework as the notebooks see it\<close>

text \<open>
  A batch is the list of its samples, each with its class label: \<open>inputs\<close> is the list of
  samples, \<open>targets\<close> the list of labels, \<open>inputs.size(0)\<close> the number of samples.

  A loader yields a list of batches each time it is iterated and, when it shuffles, not
  the same list each time: \<open>batches loader k\<close> is what it yields on pass \<open>k\<close>, the passes
  counted from 0 at the call of the function that iterates it.  The two loaders of
  \<open>train\<close> are different objects, so each makes one pass in every epoch.
  \<open>len(loader)\<close> is the number of batches of a pass, and \<open>len(loader.dataset)\<close> is a
  number of its own.
\<close>

type_synonym 'a batch = "('a \<times> nat) list"

record 'a loader =
  batches :: "nat \<Rightarrow> 'a batch list"
  dataset_len :: nat

abbreviation loader_len :: "'a loader \<Rightarrow> nat" where
  "loader_len loader \<equiv> length (batches loader 0)"

text \<open>
  The calls into the framework, in the order they are made.  The model and the optimizer
  are mutable objects: what \<open>model(inputs)\<close> answers depends on every call made before, so
  the framework's answer is a function of the calls so far.  \<open>SetLr r\<close> is the assignment
  \<open>optimizer.param_groups[0]["lr"] = r\<close>; the rate is a float or, once \<open>**\<close> has left the
  reals, a complex number.
\<close>

datatype 'a event =
    ModelTrain | ModelEval | ZeroGrad | Forward "'a list" | LossFn "nat list"
  | Backward | OptStep | SetLr complex

record 'a framework =
  logits :: "'a event list \<Rightarrow> 'a list \<Rightarrow> nat \<Rightarrow> real list"
  loss_fn :: "real list list \<Rightarrow> nat list \<Rightarrow> real"

definition model :: "'a framework \<Rightarrow> 'a event list \<Rightarrow> 'a list \<Rightarrow> real list list" where
  \<comment> \<open>\<open>model(inputs)\<close>: one row of class scores for each sample\<close>
  "model fw h inputs = map (logits fw h inputs) [0..<length inputs]"

definition softmax :: "real list \<Rightarrow> real list" where
  "softmax row = map (\<lambda>x. exp x / sum_list (map exp row)) row"

fun max_index_from :: "nat \<Rightarrow> real \<Rightarrow> nat \<Rightarrow> real list \<Rightarrow> nat" where
  "max_index_from best_i best_v i [] = best_i"
| "max_index_from best_i best_v i (x # xs) =
     (if best_v < x then max_index_from i x (Suc i) xs
      else max_index_from best_i best_v (Suc i) xs)"

definition max_index :: "real list \<Rightarrow> error + nat" where
  \<comment> \<open>index of the first maximum of a row; an empty row has none\<close>
  "max_index row =
     (case row of [] \<Rightarrow> Inl RuntimeError | x # xs \<Rightarrow> Inr (max_index_from 0 x 1 xs))"

fun max_dim1 :: "real list list \<Rightarrow> error + nat list" where
  \<comment> \<open>\<open>torch.max(rows, dim=1)[1]\<close>\<close>
  "max_dim1 [] = Inr []"
| "max_dim1 (row # rows) =
     (case max_index row of
        Inl e \<Rightarrow> Inl e
      | Inr c \<Rightarrow> (case max_dim1 rows of Inl e \<Rightarrow> Inl e | Inr cs \<Rightarrow> Inr (c # cs)))"

definition torch_eq :: "nat list \<Rightarrow> nat list \<Rightarrow> bool list" where
  "torch_eq xs ys = map (\<lambda>(x, y). x = y) (zip xs ys)"

definition torch_sum :: "bool list \<Rightarrow> nat" where
  "torch_sum bs = length (filter (\<lambda>b. b) bs)"

section \<open>The training loop\<close>

text \<open>
  \<open>tensor.to(device)\<close> gives the same tensor on the device and is left out.  A printed
  line is the tuple of the four values that are formatted into it.  A world is what the
  function has done so far: the framework calls made and the lines printed.  A function
  that raises gives \<open>Inl\<close> of the exception with the world at that moment.
\<close>

record metrics_line =
  line_epoch :: nat
  line_training_loss :: real
  line_valid_loss :: real
  line_accuracy :: real

record 'a world =
  calls :: "'a event list"
  stdout :: "metrics_line list"

definition train_step ::
  "'a framework \<Rightarrow> 'a batch \<Rightarrow> 'a event list \<times> real \<Rightarrow> 'a event list \<times> real" where
  "train_step fw batch = (\<lambda>(h, training_loss).
     let h1 = h @ [ZeroGrad];
         inputs = map fst batch;
         targets = map snd batch;
         outputs = model fw h1 inputs;
         h2 = h1 @ [Forward inputs];
         loss = loss_fn fw outputs targets;
         h3 = h2 @ [LossFn targets];
         h4 = h3 @ [Backward];
         h5 = h4 @ [OptStep]
     in (h5, training_loss + loss * real (length inputs)))"

fun train_loop ::
  "'a framework \<Rightarrow> 'a batch list \<Rightarrow> 'a event list \<times> real \<Rightarrow> 'a event list \<times> real" where
  "train_loop fw [] s = s"
| "train_loop fw (batch # rest) s = train_loop fw rest (train_step fw batch s)"

definition val_step ::
  "'a framework \<Rightarrow> 'a batch \<Rightarrow> 'a event list \<times> real \<times> nat \<times> nat
     \<Rightarrow> error \<times> 'a event list + 'a event list \<times> real \<times> nat \<times> nat" where
  "val_step fw batch = (\<lambda>(h, valid_loss, num_correct, num_examples).
     let inputs = map fst batch;
         targets = map snd batch;
         outputs = model fw h inputs;
         h1 = h @ [Forward inputs];
         loss = loss_fn fw outputs targets;
         h2 = h1 @ [LossFn targets];
         valid_loss = valid_loss + loss * real (length inputs)
     in case max_dim1 (map softmax outputs) of
          Inl e \<Rightarrow> Inl (e, h2)
        | Inr classes \<Rightarrow>
            let correct = torch_eq classes targets
            in Inr (h2, valid_loss, num_correct + torch_sum correct,
                    num_examples + length correct))"

fun val_loop ::
  "'a framework \<Rightarrow> 'a batch list \<Rightarrow> 'a event list \<times> real \<times> nat \<times> nat
     \<Rightarrow> error \<times> 'a event list + 'a event list \<times> real \<times> nat \<times> nat" where
  "val_loop fw [] s = Inr s"
| "val_loop fw (batch # rest) s =
     (case val_step fw batch s of Inl e \<Rightarrow> Inl e | Inr s' \<Rightarrow> val_loop fw rest s')"

definition train_epoch ::
  "'a framework \<Rightarrow> 'a loader \<Rightarrow> 'a loader \<Rightarrow> nat \<Rightarrow> 'a world
     \<Rightarrow> error \<times> 'a world + 'a world" where
  "train_epoch fw train_loader val_loader epoch w =
     (let (h1, training_loss) =
            train_loop fw (batches train_loader epoch) (calls w @ [ModelTrain], 0)
      in  if dataset_len train_loader = 0 then Inl (ZeroDivisionError, w\<lparr>calls := h1\<rparr>)
          else
            let training_loss = training_loss / real (dataset_len train_loader)
            in case val_loop fw (batches val_loader epoch) (h1 @ [ModelEval], 0, 0, 0) of
                 Inl (e, h) \<Rightarrow> Inl (e, w\<lparr>calls := h\<rparr>)
               | Inr (h2, valid_loss, num_correct, num_examples) \<Rightarrow>
                   if dataset_len val_loader = 0
                   then Inl (ZeroDivisionError, w\<lparr>calls := h2\<rparr>)
                   else
                     let valid_loss = valid_loss / real (dataset_len val_loader)
                     in if num_examples = 0
                        then Inl (ZeroDivisionError, w\<lparr>calls := h2\<rparr>)
                        else Inr \<lparr>calls = h2,
                                  stdout = stdout w @
                                    [\<lparr>line_epoch = epoch,
                                      line_training_loss = training_loss,
                                      line_valid_loss = valid_loss,
                                      line_accuracy = real num_correct / real num_examples\<rparr>]\<rparr>)"

fun train_epochs ::
  "'a framework \<Rightarrow> 'a loader \<Rightarrow> 'a loader \<Rightarrow> nat list \<Rightarrow> 'a world
     \<Rightarrow> error \<times> 'a world + 'a world" where
  "train_epochs fw train_loader val_loader [] w = Inr w"
| "train_epochs fw train_loader val_loader (epoch # rest) w =
     (case train_epoch fw train_loader val_loader epoch w of
        Inl e \<Rightarrow> Inl e
      | Inr w' \<Rightarrow> train_epochs fw train_loader val_loader rest w')"

definition train ::
  "'a framework \<Rightarrow> 'a loader \<Rightarrow> 'a loader \<Rightarrow> nat \<Rightarrow> 'a world
     \<Rightarrow> error \<times> 'a world + 'a world" where
  \<comment> \<open>\<open>for epoch in range(epochs)\<close>\<close>
  "train fw train_loader val_loader epochs w =
     train_epochs fw train_loader val_loader [0..<epochs] w"

section \<open>The learning-rate range test\<close>

text \<open>
  \<open>find_lr\<close> leaves its loop in two ways: the return inside the loop when the loss
  explodes, and the return after the last batch.  \<open>find_lr_run\<close> is the function up to
  its return statements and says which of the two was reached, with the local variables
  there; \<open>find_lr\<close> adds the return statements.  The function iterates the loader once:
  the batches are those of pass 0.
\<close>

datatype exit_path = Exploded | Exhausted

record 'a lr_vars =
  lr :: complex
  best_loss :: real
  batch_num :: nat
  losses :: "real list"
  log_lrs :: "complex list"
  hist :: "'a event list"

definition number_in_epoch :: "'a loader \<Rightarrow> int" where
  "number_in_epoch train_loader = int (loader_len train_loader) - 1"

definition update_step :: "'a loader \<Rightarrow> real \<Rightarrow> real \<Rightarrow> error + complex" where
  \<comment> \<open>\<open>(final_value / init_value) ** (1 / number_in_epoch)\<close>\<close>
  "update_step train_loader init_value final_value =
     (case truediv final_value init_value of
        Inl e \<Rightarrow> Inl e
      | Inr ratio \<Rightarrow>
          (case truediv 1 (real_of_int (number_in_epoch train_loader)) of
             Inl e \<Rightarrow> Inl e
           | Inr ex \<Rightarrow> float_pow ratio ex))"

fun find_lr_loop ::
  "'a framework \<Rightarrow> complex \<Rightarrow> 'a batch list \<Rightarrow> 'a lr_vars \<Rightarrow> exit_path \<times> 'a lr_vars" where
  "find_lr_loop fw u [] s = (Exhausted, s)"
| "find_lr_loop fw u (data # rest) s =
     (let n = batch_num s + 1;
          h1 = hist s @ [ZeroGrad];
          inputs = map fst data;
          targets = map snd data;
          outputs = model fw h1 inputs;
          h2 = h1 @ [Forward inputs];
          loss = loss_fn fw outputs targets;
          h3 = h2 @ [LossFn targets]
      in if n > 1 \<and> loss > 4 * best_loss s
         then (Exploded, s\<lparr>batch_num := n, hist := h3\<rparr>)
         else find_lr_loop fw u rest
                \<lparr>lr = lr s * u,
                 best_loss = (if loss < best_loss s \<or> n = 1 then loss else best_loss s),
                 batch_num = n,
                 losses = losses s @ [loss],
                 log_lrs = log_lrs s @ [lr s],
                 hist = h3 @ [Backward, OptStep, SetLr (lr s * u)]\<rparr>)"

definition find_lr_run ::
  "'a framework \<Rightarrow> 'a loader \<Rightarrow> real \<Rightarrow> real \<Rightarrow> 'a world
     \<Rightarrow> error \<times> 'a world + exit_path \<times> 'a lr_vars" where
  "find_lr_run fw train_loader init_value final_value w =
     (case update_step train_loader init_value final_value of
        Inl e \<Rightarrow> Inl (e, w)
      | Inr u \<Rightarrow>
          Inr (find_lr_loop fw u (batches train_loader 0)
                 \<lparr>lr = complex_of_real init_value, best_loss = 0, batch_num = 0,
                  losses = [], log_lrs = [],
                  hist = calls w @ [SetLr (complex_of_real init_value)]\<rparr>))"

definition find_lr ::
  "'a framework \<Rightarrow> 'a loader \<Rightarrow> real \<Rightarrow> real \<Rightarrow> 'a world
     \<Rightarrow> error \<times> 'a world + 'a world \<times> complex list \<times> real list" where
  "find_lr fw train_loader init_value final_value w =
     (case find_lr_run fw train_loader init_value final_value w of
        Inl e \<Rightarrow> Inl e
      | Inr (Exploded, s) \<Rightarrow>
          Inr (w\<lparr>calls := hist s\<rparr>,
               if length (log_lrs s) > 20
               then (py_slice (log_lrs s) 10 (- 5), py_slice (losses s) 10 (- 5))
               else (log_lrs s, losses s))
      | Inr (Exhausted, s) \<Rightarrow>
          Inr (w\<lparr>calls := hist s\<rparr>,
               if length (log_lrs s) > 20
               then (py_slice (log_lrs s) 10 (- 5), py_slice (losses s) 10 (- 5))
               else (log_lrs s, losses s)))"

section \<open>Freezing the pretrained network\<close>

text \<open>
  \<open>named_parameters()\<close> is the list of the network's parameters with their names.
  Assigning a new \<open>nn.Sequential\<close> of two \<open>nn.Linear\<close> layers (at positions 0 and 3) to
  \<open>transfer_model.fc\<close> takes the parameters under \<open>fc.\<close> out and puts the new layers'
  weights and biases in; a fresh layer's parameters are created trainable.
\<close>

record param =
  name :: string
  requires_grad :: bool

fun freeze :: "param list \<Rightarrow> param list" where
  "freeze [] = []"
| "freeze (p # rest) =
     (if \<not> str_in ''bn'' (name p) then p\<lparr>requires_grad := False\<rparr> else p) # freeze rest"

definition new_fc :: "param list" where
  "new_fc =
     [\<lparr>name = ''fc.0.weight'', requires_grad = True\<rparr>,
      \<lparr>name = ''fc.0.bias'', requires_grad = True\<rparr>,
      \<lparr>name = ''fc.3.weight'', requires_grad = True\<rparr>,
      \<lparr>name = ''fc.3.bias'', requires_grad = True\<rparr>]"

definition replace_fc :: "param list \<Rightarrow> param list" where
  "replace_fc ps = filter (\<lambda>p. take 3 (name p) \<noteq> ''fc.'') ps @ new_fc"

section \<open>Checking an image file\<close>

definition try_except :: "'e + 'b \<Rightarrow> ('e \<Rightarrow> 'e + 'b) \<Rightarrow> 'e + 'b" where
  \<comment> \<open>a bare \<open>except:\<close> catches every exception of the body\<close>
  "try_except body handler = (case body of Inl e \<Rightarrow> handler e | Inr v \<Rightarrow> Inr v)"

definition check_image :: "('p \<Rightarrow> 'e + 'i) \<Rightarrow> 'p \<Rightarrow> 'e + bool" where
  "check_image image_open path =
     try_except
       (case image_open path of Inl e \<Rightarrow> Inl e | Inr im \<Rightarrow> Inr True)
       (\<lambda>e. Inr False)"

section \<open>What the loops are expected to do\<close>

definition batch_calls :: "'a batch \<Rightarrow> 'a event list" where
  "batch_calls b = [ZeroGrad, Forward (map fst b), LossFn (map snd b), Backward, OptStep]"

definition val_calls :: "'a batch \<Rightarrow> 'a event list" where
  "val_calls b = [Forward (map fst b), LossFn (map snd b)]"

definition epoch_calls :: "'a loader \<Rightarrow> 'a loader \<Rightarrow> nat \<Rightarrow> 'a event list" where
  \<comment> \<open>the calls of epoch \<open>k\<close>\<close>
  "epoch_calls train_loader val_loader k =
     ModelTrain # concat (map batch_calls (batches train_loader k)) @
     ModelEval # concat (map val_calls (batches val_loader k))"

definition batch_loss :: "'a framework \<Rightarrow> 'a event list \<Rightarrow> 'a batch \<Rightarrow> real" where
  \<comment> \<open>the loss of a batch when the model is called after the calls \<open>h\<close>\<close>
  "batch_loss fw h b = loss_fn fw (model fw h (map fst b)) (map snd b)"

definition train_loss_sum :: "'a framework \<Rightarrow> 'a event list \<Rightarrow> 'a batch list \<Rightarrow> real" where
  "train_loss_sum fw h bs =
     (\<Sum>j<length bs.
        batch_loss fw (h @ concat (map batch_calls (take j bs)) @ [ZeroGrad]) (bs ! j)
          * real (length (bs ! j)))"

definition val_hist :: "'a event list \<Rightarrow> 'a batch list \<Rightarrow> nat \<Rightarrow> 'a event list" where
  "val_hist h bs j = h @ concat (map val_calls (take j bs))"

definition val_loss_sum :: "'a framework \<Rightarrow> 'a event list \<Rightarrow> 'a batch list \<Rightarrow> real" where
  "val_loss_sum fw h bs =
     (\<Sum>j<length bs. batch_loss fw (val_hist h bs j) (bs ! j) * real (length (bs ! j)))"

definition predicted_right :: "real list \<times> nat \<Rightarrow> bool" where
  \<comment> \<open>the index of the maximum of the softmaxed scores of a sample is its target\<close>
  "predicted_right = (\<lambda>(row, target). max_index (softmax row) = Inr target)"

definition correct_in :: "'a framework \<Rightarrow> 'a event list \<Rightarrow> 'a batch \<Rightarrow> nat" where
  "correct_in fw h b =
     length (filter predicted_right (zip (model fw h (map fst b)) (map snd b)))"

definition val_correct :: "'a framework \<Rightarrow> 'a event list \<Rightarrow> 'a batch list \<Rightarrow> nat" where
  "val_correct fw h bs = (\<Sum>j<length bs. correct_in fw (val_hist h bs j) (bs ! j))"

definition val_examples :: "'a batch list \<Rightarrow> nat" where
  "val_examples bs = sum_list (map length bs)"

definition eval_start :: "'a event list \<Rightarrow> 'a loader \<Rightarrow> nat \<Rightarrow> 'a event list" where
  \<comment> \<open>the calls made when epoch \<open>k\<close>, begun after \<open>h\<close>, starts its validation loop\<close>
  "eval_start h train_loader k =
     h @ ModelTrain # concat (map batch_calls (batches train_loader k)) @ [ModelEval]"

definition expected_line ::
  "'a framework \<Rightarrow> 'a loader \<Rightarrow> 'a loader \<Rightarrow> 'a event list \<Rightarrow> nat \<Rightarrow> metrics_line" where
  \<comment> \<open>the line of epoch \<open>k\<close>, begun after \<open>h\<close>\<close>
  "expected_line fw train_loader val_loader h k =
     \<lparr>line_epoch = k,
      line_training_loss =
        train_loss_sum fw (h @ [ModelTrain]) (batches train_loader k)
          / real (dataset_len train_loader),
      line_valid_loss =
        val_loss_sum fw (eval_start h train_loader k) (batches val_loader k)
          / real (dataset_len val_loader),
      line_accuracy =
        real (val_correct fw (eval_start h train_loader k) (batches val_loader k))
          / real (val_examples (batches val_loader k))\<rparr>"

definition epoch_begin :: "'a world \<Rightarrow> 'a loader \<Rightarrow> 'a loader \<Rightarrow> nat \<Rightarrow> 'a event list" where
  \<comment> \<open>the calls made when epoch \<open>k\<close> begins\<close>
  "epoch_begin w train_loader val_loader k =
     calls w @ concat (map (epoch_calls train_loader val_loader) [0..<k])"


text \<open>
  For the learning-rate range test: the calls of one batch that did not explode, the
  inputs the model was called on, the local variables after such a batch, and the test
  that leaves the loop.
\<close>

definition sweep_calls :: "'a batch \<Rightarrow> complex \<Rightarrow> 'a event list" where
  "sweep_calls b r =
     [ZeroGrad, Forward (map fst b), LossFn (map snd b), Backward, OptStep, SetLr r]"

fun forwarded :: "'a event list \<Rightarrow> 'a list list" where
  "forwarded [] = []"
| "forwarded (Forward xs # h) = xs # forwarded h"
| "forwarded (e # h) = forwarded h"

definition lr_next :: "'a framework \<Rightarrow> complex \<Rightarrow> 'a batch \<Rightarrow> 'a lr_vars \<Rightarrow> 'a lr_vars" where
  "lr_next fw u b s =
     (let loss = batch_loss fw (hist s @ [ZeroGrad]) b
      in \<lparr>lr = lr s * u,
          best_loss = (if loss < best_loss s \<or> batch_num s = 0 then loss else best_loss s),
          batch_num = Suc (batch_num s),
          losses = losses s @ [loss],
          log_lrs = log_lrs s @ [lr s],
          hist = hist s @ sweep_calls b (lr s * u)\<rparr>)"

definition explodes :: "'a framework \<Rightarrow> 'a batch \<Rightarrow> 'a lr_vars \<Rightarrow> bool" where
  "explodes fw b s \<longleftrightarrow>
     0 < batch_num s \<and> 4 * best_loss s < batch_loss fw (hist s @ [ZeroGrad]) b"






section \<open>Example inputs\<close>

text \<open>
  A framework whose model scores a sample \<open>x\<close> as \<open>[x, 1]\<close> and whose loss is the sum of the
  batch's labels, and a world in which nothing has been called or printed yet.
\<close>

definition fw_ex :: "nat framework" where
  "fw_ex = \<lparr>logits = (\<lambda>h xs i. [real (xs ! i), 1]),
            loss_fn = (\<lambda>outputs targets. real (sum_list targets))\<rparr>"

definition w_ex :: "nat world" where
  "w_ex = \<lparr>calls = [], stdout = []\<rparr>"

text \<open>
  Loaders of one, three, four and twenty-six batches of one sample each that yield the
  same batches on every pass, and a loader that yields its two batches in turn in one
  order and the other.
\<close>

definition ld1 :: "nat loader" where
  "ld1 = \<lparr>batches = (\<lambda>k. [[(0, 1)]]), dataset_len = 1\<rparr>"

definition ld3 :: "nat loader" where
  "ld3 = \<lparr>batches = (\<lambda>k. [[(0, 1)], [(1, 1)], [(2, 1)]]), dataset_len = 3\<rparr>"



definition ld26 :: "nat loader" where
  "ld26 = \<lparr>batches = (\<lambda>k. map (\<lambda>i. [(i, 1)]) [0..<26]), dataset_len = 26\<rparr>"

definition ld_shuffle :: "nat loader" where
  "ld_shuffle =
     \<lparr>batches = (\<lambda>k. if even k then [[(0, 1)], [(2, 0), (3, 2)]] else [[(2, 0), (3, 2)], [(0, 1)]]),
      dataset_len = 3\<rparr>"

definition ld_val :: "nat loader" where
  "ld_val = \<lparr>batches = (\<lambda>k. [[(0, 1), (3, 1), (1, 0)]]), dataset_len = 3\<rparr>"

definition ld_empty :: "nat loader" where
  "ld_empty = \<lparr>batches = (\<lambda>k. []), dataset_len = 0\<rparr>"

definition ld_dropped :: "nat loader" where
  "ld_dropped = \<lparr>batches = (\<lambda>k. []), dataset_len = 3\<rparr>"

text \<open>
  A few parameters of a pretrained network.  Then the parameters of the first block of
  torchvision's \<open>resnet50\<close>, in the order of \<open>named_parameters()\<close>, all trainable as they
  are when the network is loaded, each with the kind of layer that owns it: every
  convolution is followed by a BatchNorm layer, also the 1x1 convolution of the
  shortcut, \<open>downsample = nn.Sequential(conv1x1(...), norm_layer(...))\<close>, whose layers
  carry their positions 0 and 1 as names.
\<close>

definition resnet_ex :: "param list" where
  "resnet_ex =
     [\<lparr>name = ''conv1.weight'', requires_grad = True\<rparr>,
      \<lparr>name = ''bn1.weight'', requires_grad = True\<rparr>,
      \<lparr>name = ''layer1.0.bn2.bias'', requires_grad = True\<rparr>,
      \<lparr>name = ''fc.weight'', requires_grad = True\<rparr>,
      \<lparr>name = ''fc.bias'', requires_grad = True\<rparr>]"

datatype layer_kind = Conv2d | BatchNorm2d | Linear

definition resnet50_layer1_0 :: "(layer_kind \<times> param) list" where
  "resnet50_layer1_0 =
     [(Conv2d, \<lparr>name = ''layer1.0.conv1.weight'', requires_grad = True\<rparr>),
      (BatchNorm2d, \<lparr>name = ''layer1.0.bn1.weight'', requires_grad = True\<rparr>),
      (BatchNorm2d, \<lparr>name = ''layer1.0.bn1.bias'', requires_grad = True\<rparr>),
      (Conv2d, \<lparr>name = ''layer1.0.conv2.weight'', requires_grad = True\<rparr>),
      (BatchNorm2d, \<lparr>name = ''layer1.0.bn2.weight'', requires_grad = True\<rparr>),
      (BatchNorm2d, \<lparr>name = ''layer1.0.bn2.bias'', requires_grad = True\<rparr>),
      (Conv2d, \<lparr>name = ''layer1.0.conv3.weight'', requires_grad = True\<rparr>),
      (BatchNorm2d, \<lparr>name = ''layer1.0.bn3.weight'', requires_grad = True\<rparr>),
      (BatchNorm2d, \<lparr>name = ''layer1.0.bn3.bias'', requires_grad = True\<rparr>),
      (Conv2d, \<lparr>name = ''layer1.0.downsample.0.weight'', requires_grad = True\<rparr>),
      (BatchNorm2d, \<lparr>name = ''layer1.0.downsample.1.weight'', requires_grad = True\<rparr>),
      (BatchNorm2d, \<lparr>name = ''layer1.0.downsample.1.bias'', requires_grad = True\<rparr>)]"

text \<open>An \<open>Image.open\<close> that knows one file.\<close>

definition image_open_ex :: "string \<Rightarrow> string + nat" where
  "image_open_ex path = (if path = ''cat.jpg'' then Inr 64 else Inl ''FileNotFoundError'')"

section \<open>Lemmas about the training loop\<close>

lemma train_step_eq:
  "train_step fw b (h, acc) =
     (h @ batch_calls b, acc + batch_loss fw (h @ [ZeroGrad]) b * real (length b))"
  by (simp add: train_step_def batch_calls_def batch_loss_def Let_def)

lemma train_loss_sum_Nil: "train_loss_sum fw h [] = 0"
  by (simp add: train_loss_sum_def)

lemma train_loss_sum_Cons:
  "train_loss_sum fw h (b # bs) =
     batch_loss fw (h @ [ZeroGrad]) b * real (length b) + train_loss_sum fw (h @ batch_calls b) bs"
  by (simp add: train_loss_sum_def sum.lessThan_Suc_shift del: sum.lessThan_Suc)

lemma train_loop_eq:
  "train_loop fw bs (h, acc) = (h @ concat (map batch_calls bs), acc + train_loss_sum fw h bs)"
  by (induction bs arbitrary: h acc)
     (simp_all add: train_step_eq train_loss_sum_Nil train_loss_sum_Cons add.assoc)

lemma max_dim1_length: "max_dim1 rows = Inr cs \<Longrightarrow> length cs = length rows"
  by (induction rows arbitrary: cs) (auto split: sum.splits)

lemma max_dim1_correct:
  "max_dim1 rows = Inr cs \<Longrightarrow>
     torch_sum (torch_eq cs ts) =
       length (filter (\<lambda>(row, t). max_index row = Inr t) (zip rows ts))"
proof (induction rows arbitrary: cs ts)
  case Nil
  then show ?case by (simp add: torch_sum_def torch_eq_def)
next
  case (Cons row rows)
  then obtain c cs' where c: "max_index row = Inr c" "max_dim1 rows = Inr cs'" "cs = c # cs'"
    by (auto split: sum.splits)
  show ?case
  proof (cases ts)
    case Nil
    then show ?thesis by (simp add: torch_sum_def torch_eq_def)
  next
    case (Cons t ts')
    have "torch_sum (torch_eq cs' ts') =
       length (filter (\<lambda>(row, t). max_index row = Inr t) (zip rows ts'))"
      using Cons.IH [OF c(2)] .
    then show ?thesis using c Cons by (auto simp add: torch_sum_def torch_eq_def)
  qed
qed

lemma max_dim1_Inr_iff: "(\<exists>cs. max_dim1 rows = Inr cs) \<longleftrightarrow> [] \<notin> set rows"
  by (induction rows) (auto simp add: max_index_def split: sum.splits list.splits)

lemma model_length: "length (model fw h xs) = length xs"
  by (simp add: model_def)

lemma correct_in_softmax:
  "length (filter (\<lambda>(row, t). max_index row = Inr t) (zip (map softmax rows) ts)) =
     length (filter predicted_right (zip rows ts))"
proof -
  have "zip (map softmax rows) ts = map (\<lambda>(row, t). (softmax row, t)) (zip rows ts)"
    by (simp add: zip_map1)
  then show ?thesis
    by (simp add: filter_map o_def predicted_right_def case_prod_unfold)
qed

lemma val_step_Inr:
  assumes "val_step fw b (h, vl, nc, ne) = Inr s'"
  shows "s' = (h @ val_calls b, vl + batch_loss fw h b * real (length b),
               nc + correct_in fw h b, ne + length b)"
proof -
  let ?rows = "map softmax (model fw h (map fst b))"
  from assms obtain cs where cs: "max_dim1 ?rows = Inr cs"
    by (auto simp add: val_step_def Let_def split: sum.splits)
  have len: "length cs = length b"
    using max_dim1_length [OF cs] by (simp add: model_length)
  have corr: "torch_sum (torch_eq cs (map snd b)) = correct_in fw h b"
    using max_dim1_correct [OF cs, of "map snd b"]
    by (simp add: correct_in_softmax correct_in_def)
  have "length (torch_eq cs (map snd b)) = length b"
    by (simp add: torch_eq_def len)
  with assms cs corr show ?thesis
    by (simp add: val_step_def Let_def val_calls_def batch_loss_def)
qed

lemma val_step_ok:
  assumes "\<And>h xs i. logits fw h xs i \<noteq> []"
  shows "\<exists>s'. val_step fw b (h, vl, nc, ne) = Inr s'"
proof -
  have "[] \<notin> set (map softmax (model fw h (map fst b)))"
    using assms by (auto simp add: model_def softmax_def)
  then obtain cs where "max_dim1 (map softmax (model fw h (map fst b))) = Inr cs"
    using max_dim1_Inr_iff by blast
  then show ?thesis by (simp add: val_step_def Let_def)
qed

lemma val_hist_0: "val_hist h bs 0 = h"
  by (simp add: val_hist_def)

lemma val_hist_Suc: "val_hist h (b # bs) (Suc j) = val_hist (h @ val_calls b) bs j"
  by (simp add: val_hist_def)

lemma val_loss_sum_Nil: "val_loss_sum fw h [] = 0"
  by (simp add: val_loss_sum_def)

lemma val_loss_sum_Cons:
  "val_loss_sum fw h (b # bs) =
     batch_loss fw h b * real (length b) + val_loss_sum fw (h @ val_calls b) bs"
  by (simp add: val_loss_sum_def sum.lessThan_Suc_shift val_hist_0 val_hist_Suc
      del: sum.lessThan_Suc)

lemma val_correct_Nil: "val_correct fw h [] = 0"
  by (simp add: val_correct_def)

lemma val_correct_Cons:
  "val_correct fw h (b # bs) = correct_in fw h b + val_correct fw (h @ val_calls b) bs"
  by (simp add: val_correct_def sum.lessThan_Suc_shift val_hist_0 val_hist_Suc
      del: sum.lessThan_Suc)

lemma val_loop_Inr:
  "val_loop fw bs (h, vl, nc, ne) = Inr s' \<Longrightarrow>
     s' = (h @ concat (map val_calls bs), vl + val_loss_sum fw h bs,
           nc + val_correct fw h bs, ne + val_examples bs)"
proof (induction bs arbitrary: h vl nc ne)
  case Nil
  then show ?case
    by (simp add: val_loss_sum_Nil val_correct_Nil val_examples_def)
next
  case (Cons b bs)
  from Cons.prems obtain s1 where s1: "val_step fw b (h, vl, nc, ne) = Inr s1"
    and rest: "val_loop fw bs s1 = Inr s'"
    by (auto split: sum.splits)
  note eq = val_step_Inr [OF s1]
  have "s' = ((h @ val_calls b) @ concat (map val_calls bs),
      vl + batch_loss fw h b * real (length b) + val_loss_sum fw (h @ val_calls b) bs,
      nc + correct_in fw h b + val_correct fw (h @ val_calls b) bs,
      ne + length b + val_examples bs)"
    by (rule Cons.IH [OF rest [unfolded eq]])
  then show ?case
    by (simp add: val_loss_sum_Cons val_correct_Cons val_examples_def add.assoc)
qed

lemma val_loop_ok:
  assumes "\<And>h xs i. logits fw h xs i \<noteq> []"
  shows "\<exists>s'. val_loop fw bs (h, vl, nc, ne) = Inr s'"
proof (induction bs arbitrary: h vl nc ne)
  case Nil
  then show ?case by simp
next
  case (Cons b bs)
  obtain s1 where s1: "val_step fw b (h, vl, nc, ne) = Inr s1"
    using val_step_ok [OF assms] by blast
  obtain h1 vl1 nc1 ne1 where "s1 = (h1, vl1, nc1, ne1)" by (cases s1) auto
  with s1 Cons.IH [of h1 vl1 nc1 ne1] show ?case by simp
qed

lemma train_epoch_Inr:
  assumes "train_epoch fw tr va e w = Inr w'"
  shows "w' = \<lparr>calls = calls w @ epoch_calls tr va e,
               stdout = stdout w @ [expected_line fw tr va (calls w) e]\<rparr>"
proof -
  let ?h = "eval_start (calls w) tr e"
  from assms have d1: "dataset_len tr \<noteq> 0"
    by (auto simp add: train_epoch_def train_loop_eq split: if_splits)
  from assms d1 obtain s where s: "val_loop fw (batches va e) (?h, 0, 0, 0) = Inr s"
    by (auto simp add: train_epoch_def train_loop_eq eval_start_def Let_def
        split: sum.splits prod.splits)
  note s_eq = val_loop_Inr [OF s]
  from assms d1 s have d2: "dataset_len va \<noteq> 0" and d3: "val_examples (batches va e) \<noteq> 0"
    by (auto simp add: train_epoch_def train_loop_eq eval_start_def Let_def s_eq
        split: if_splits)
  from assms d1 d2 d3 s show ?thesis
    by (simp add: train_epoch_def train_loop_eq eval_start_def Let_def s_eq
        expected_line_def epoch_calls_def)
qed


lemma train_epoch_ok:
  assumes "dataset_len tr \<noteq> 0" "dataset_len va \<noteq> 0" "val_examples (batches va e) \<noteq> 0"
    and "\<And>h xs i. logits fw h xs i \<noteq> []"
  shows "\<exists>w'. train_epoch fw tr va e w = Inr w'"
proof -
  obtain s where s: "val_loop fw (batches va e) (eval_start (calls w) tr e, 0, 0, 0) = Inr s"
    using val_loop_ok [OF assms(4)] by blast
  note s_eq = val_loop_Inr [OF s]
  from assms(1-3) s show ?thesis
    by (simp add: train_epoch_def train_loop_eq eval_start_def Let_def s_eq)
qed

text \<open>
  The epochs of a list \<open>es\<close>, run from the world \<open>w\<close>: epoch number \<open>k\<close> of the list
  begins after the calls of the epochs before it.
\<close>

lemma train_epochs_Inr:
  "train_epochs fw tr va es w = Inr w' \<Longrightarrow>
     w' = \<lparr>calls = calls w @ concat (map (epoch_calls tr va) es),
           stdout = stdout w @
             map (\<lambda>k. expected_line fw tr va
                       (calls w @ concat (map (epoch_calls tr va) (take k es))) (es ! k))
               [0..<length es]\<rparr>"
proof (induction es arbitrary: w)
  case Nil
  then show ?case by simp
next
  case (Cons e es)
  from Cons.prems obtain w1 where w1: "train_epoch fw tr va e w = Inr w1"
    and rest: "train_epochs fw tr va es w1 = Inr w'"
    by (auto split: sum.splits)
  have c1: "calls w1 = calls w @ epoch_calls tr va e"
    and o1: "stdout w1 = stdout w @ [expected_line fw tr va (calls w) e]"
    using train_epoch_Inr [OF w1] by simp_all
  show ?case
    unfolding Cons.IH [OF rest]
    by (simp add: c1 o1 map_upt_Suc del: upt_Suc)
qed


lemma train_epochs_ok:
  assumes "dataset_len tr \<noteq> 0" "dataset_len va \<noteq> 0"
    and "\<And>e. e \<in> set es \<Longrightarrow> val_examples (batches va e) \<noteq> 0"
    and "\<And>h xs i. logits fw h xs i \<noteq> []"
  shows "\<exists>w'. train_epochs fw tr va es w = Inr w'"
  using assms(3)
proof (induction es arbitrary: w)
  case Nil
  then show ?case by simp
next
  case (Cons e es)
  have "val_examples (batches va e) \<noteq> 0" using Cons.prems by simp
  then obtain w1 where "train_epoch fw tr va e w = Inr w1"
    using train_epoch_ok [OF assms(1,2) _ assms(4)] by blast
  moreover have "\<exists>w'. train_epochs fw tr va es w1 = Inr w'"
    using Cons.prems by (intro Cons.IH) simp
  ultimately show ?case by simp
qed

text \<open>For \<open>range(epochs)\<close>: epoch \<open>k\<close> has index \<open>k\<close> and begins after the epochs below it.\<close>

lemma train_Inr:
  assumes "train fw tr va epochs w = Inr w'"
  shows "w' = \<lparr>calls = epoch_begin w tr va epochs,
               stdout = stdout w @
                 map (\<lambda>k. expected_line fw tr va (epoch_begin w tr va k) k) [0..<epochs]\<rparr>"
proof -
  have "map (\<lambda>k. expected_line fw tr va
                (calls w @ concat (map (epoch_calls tr va) (take k [0..<epochs])))
                ([0..<epochs] ! k)) [0..<length [0..<epochs]] =
        map (\<lambda>k. expected_line fw tr va (epoch_begin w tr va k) k) [0..<epochs]"
    by (rule map_cong) (simp_all add: epoch_begin_def)
  with train_epochs_Inr [OF assms [unfolded train_def]] show ?thesis
    by (simp add: epoch_begin_def)
qed


lemma train_ok:
  assumes "dataset_len tr \<noteq> 0" "dataset_len va \<noteq> 0"
    and "\<forall>k<epochs. val_examples (batches va k) \<noteq> 0"
    and "\<forall>h xs i. logits fw h xs i \<noteq> []"
  shows "\<exists>w'. train fw tr va epochs w = Inr w'"
  unfolding train_def using assms by (intro train_epochs_ok) simp_all

lemma max_index_from_mono:
  assumes "\<And>a b. f a < f b \<longleftrightarrow> a < (b::real)"
  shows "max_index_from bi (f bv) i (map f xs) = max_index_from bi bv i xs"
  by (induction xs arbitrary: bi bv i) (simp_all add: assms)

lemma sum_list_exp_pos: "row \<noteq> [] \<Longrightarrow> 0 < sum_list (map exp (row :: real list))"
proof (induction row)
  case Nil
  then show ?case by simp
next
  case (Cons a row)
  have "0 \<le> sum_list (map exp row)"
    by (rule sum_list_nonneg) auto
  moreover have "0 < exp a" by simp
  ultimately show ?case by (simp add: add_pos_nonneg)
qed

text \<open>Softmax keeps the order of the scores, so it keeps the place of the first maximum.\<close>

lemma max_index_softmax: "max_index (softmax row) = max_index row"
proof (cases row)
  case Nil
  then show ?thesis by (simp add: softmax_def)
next
  case (Cons x xs)
  define z where "z = sum_list (map exp row)"
  have z: "0 < z" unfolding z_def using Cons by (intro sum_list_exp_pos) simp
  have mono: "\<And>a b. exp a / z < exp b / z \<longleftrightarrow> a < (b::real)"
    using z by (simp add: divide_less_cancel)
  have "softmax row = map (\<lambda>a. exp a / z) (x # xs)"
    by (simp add: softmax_def z_def Cons)
  then show ?thesis
    using max_index_from_mono [of "\<lambda>a. exp a / z", OF mono] Cons
    by (simp add: max_index_def)
qed

lemma max_index_softmax_Cons: "max_index (softmax (x # xs)) = Inr (max_index_from 0 x 1 xs)"
  unfolding max_index_softmax by (simp add: max_index_def)

section \<open>Lemmas about the learning-rate range test\<close>

lemma forwarded_append: "forwarded (h1 @ h2) = forwarded h1 @ forwarded h2"
  by (induction h1 rule: forwarded.induct) simp_all

lemma find_lr_loop_Cons:
  "find_lr_loop fw u (b # bs) s =
     (if explodes fw b s
      then (Exploded, s\<lparr>batch_num := Suc (batch_num s),
                         hist := hist s @ [ZeroGrad, Forward (map fst b), LossFn (map snd b)]\<rparr>)
      else find_lr_loop fw u bs (lr_next fw u b s))"
  by (simp add: Let_def explodes_def lr_next_def batch_loss_def sweep_calls_def)

lemma lr_next_simps:
  "lr (lr_next fw u b s) = lr s * u"
  "batch_num (lr_next fw u b s) = Suc (batch_num s)"
  "log_lrs (lr_next fw u b s) = log_lrs s @ [lr s]"
  "length (losses (lr_next fw u b s)) = Suc (length (losses s))"
  "hist (lr_next fw u b s) = hist s @ sweep_calls b (lr s * u)"
  by (simp_all add: lr_next_def Let_def)

lemma find_lr_loop_Exhausted:
  "find_lr_loop fw u bs s = (Exhausted, s') \<Longrightarrow>
     log_lrs s' = log_lrs s @ map (\<lambda>i. lr s * u ^ i) [0..<length bs] \<and>
     length (losses s') = length (losses s) + length bs \<and>
     hist s' = hist s @ concat (map (\<lambda>i. sweep_calls (bs ! i) (lr s * u ^ Suc i)) [0..<length bs])"
proof (induction bs arbitrary: s)
  case Nil
  then show ?case by simp
next
  case (Cons b bs)
  from Cons.prems have ne: "\<not> explodes fw b s"
    and rest: "find_lr_loop fw u bs (lr_next fw u b s) = (Exhausted, s')"
    by (auto simp add: find_lr_loop_Cons simp del: find_lr_loop.simps split: if_splits)
  show ?case
    using Cons.IH [OF rest]
    by (simp add: lr_next_simps map_upt_Suc mult.assoc del: upt_Suc find_lr_loop.simps)
qed

lemma find_lr_loop_Exploded:
  "find_lr_loop fw u bs s = (Exploded, s') \<Longrightarrow>
     \<exists>m h. m < length bs \<and> 0 < batch_num s + m \<and>
       log_lrs s' = log_lrs s @ map (\<lambda>i. lr s * u ^ i) [0..<m] \<and>
       length (losses s') = length (losses s) + m \<and>
       hist s' = h @ [Forward (map fst (bs ! m)), LossFn (map snd (bs ! m))] \<and>
       4 * best_loss s' < batch_loss fw h (bs ! m) \<and>
       forwarded (hist s') = forwarded (hist s) @ map (map fst) (take (Suc m) bs) \<and>
       count_list (hist s') ZeroGrad = count_list (hist s) ZeroGrad + Suc m"
proof (induction bs arbitrary: s)
  case Nil
  then show ?case by simp
next
  case (Cons b bs)
  show ?case
  proof (cases "explodes fw b s")
    case True
    with Cons.prems have s': "s' = s\<lparr>batch_num := Suc (batch_num s),
        hist := hist s @ [ZeroGrad, Forward (map fst b), LossFn (map snd b)]\<rparr>"
      by (simp add: find_lr_loop_Cons del: find_lr_loop.simps)
    show ?thesis
      using True
      by (intro exI [of _ 0] exI [of _ "hist s @ [ZeroGrad]"])
         (simp add: s' explodes_def forwarded_append)
  next
    case False
    with Cons.prems have rest: "find_lr_loop fw u bs (lr_next fw u b s) = (Exploded, s')"
      by (simp add: find_lr_loop_Cons del: find_lr_loop.simps)
    from Cons.IH [OF rest] obtain m h where m: "m < length bs"
      and bn: "0 < batch_num (lr_next fw u b s) + m"
      and lrs: "log_lrs s' =
        log_lrs (lr_next fw u b s) @ map (\<lambda>i. lr (lr_next fw u b s) * u ^ i) [0..<m]"
      and ls: "length (losses s') = length (losses (lr_next fw u b s)) + m"
      and h: "hist s' = h @ [Forward (map fst (bs ! m)), LossFn (map snd (bs ! m))]"
      and big: "4 * best_loss s' < batch_loss fw h (bs ! m)"
      and fwd: "forwarded (hist s') =
        forwarded (hist (lr_next fw u b s)) @ map (map fst) (take (Suc m) bs)"
      and zg: "count_list (hist s') ZeroGrad =
        count_list (hist (lr_next fw u b s)) ZeroGrad + Suc m"
      by (elim exE conjE) (rule that)
    have 1: "Suc m < length (b # bs)" using m by simp
    have 2: "0 < batch_num s + Suc m" by simp
    have 3: "log_lrs s' = log_lrs s @ map (\<lambda>i. lr s * u ^ i) [0..<Suc m]"
      unfolding lrs by (simp add: lr_next_simps map_upt_Suc mult.assoc del: upt_Suc)
    have 4: "length (losses s') = length (losses s) + Suc m"
      unfolding ls by (simp add: lr_next_simps)
    have 5: "hist s' =
        h @ [Forward (map fst ((b # bs) ! Suc m)), LossFn (map snd ((b # bs) ! Suc m))]"
      unfolding h by simp
    have 6: "4 * best_loss s' < batch_loss fw h ((b # bs) ! Suc m)"
      using big by simp
    have 7: "forwarded (hist s') =
        forwarded (hist s) @ map (map fst) (take (Suc (Suc m)) (b # bs))"
      unfolding fwd by (simp add: lr_next_simps forwarded_append sweep_calls_def)
    have 8: "count_list (hist s') ZeroGrad = count_list (hist s) ZeroGrad + Suc (Suc m)"
      unfolding zg by (simp add: lr_next_simps sweep_calls_def)
    show ?thesis
      by (intro exI [of _ "Suc m"] exI [of _ h] conjI 1 2 3 4 5 6 7 8)
  qed
qed

lemma find_lr_loop_Exhausted_seen:
  "find_lr_loop fw u bs s = (Exhausted, s') \<Longrightarrow>
     forwarded (hist s') = forwarded (hist s) @ map (map fst) bs \<and>
     count_list (hist s') ZeroGrad = count_list (hist s) ZeroGrad + length bs"
proof (induction bs arbitrary: s)
  case Nil
  then show ?case by simp
next
  case (Cons b bs)
  from Cons.prems have rest: "find_lr_loop fw u bs (lr_next fw u b s) = (Exhausted, s')"
    by (auto simp add: find_lr_loop_Cons simp del: find_lr_loop.simps split: if_splits)
  show ?case
    using Cons.IH [OF rest]
    by (simp add: lr_next_simps forwarded_append sweep_calls_def del: find_lr_loop.simps)
qed








section \<open>Lemmas about the sweep of the learning rate\<close>

lemma exponent_value:
  assumes "2 \<le> loader_len ld"
  shows "truediv 1 (real_of_int (number_in_epoch ld)) = Inr (1 / real (loader_len ld - 1))"
proof -
  have "real_of_int (number_in_epoch ld) = real (loader_len ld - 1)"
    using assms by (simp add: number_in_epoch_def)
  moreover have "real (loader_len ld - 1) \<noteq> 0" using assms by simp
  ultimately show ?thesis by (simp add: truediv_def)
qed

lemma float_pow_defined: "0 < y \<Longrightarrow> \<exists>u. float_pow x y = Inr u"
  by (simp add: float_pow_def)

lemma float_pow_nonneg:
  assumes "0 \<le> x" and "0 < y"
  shows "float_pow x y = Inr (complex_of_real (x powr y))"
  using assms by (simp add: float_pow_def)

lemma update_step_eq:
  assumes "2 \<le> loader_len ld" and "init \<noteq> 0"
  shows "update_step ld init final =
           float_pow (final / init) (1 / real (loader_len ld - 1))"
proof -
  have "truediv final init = Inr (final / init)"
    using assms(2) by (simp add: truediv_def)
  then show ?thesis
    by (simp add: update_step_def exponent_value [OF assms(1)])
qed

lemma update_step_pos:
  assumes "2 \<le> loader_len ld" and "init \<noteq> 0" and "0 \<le> final / init"
  shows "update_step ld init final =
           Inr (complex_of_real ((final / init) powr (1 / real (loader_len ld - 1))))"
proof -
  have "0 < 1 / real (loader_len ld - 1)" using assms(1) by simp
  with assms(3) show ?thesis
    unfolding update_step_eq [OF assms(1,2)] by (rule float_pow_nonneg)
qed

text \<open>
  The exponent is the reciprocal of a positive whole number \<open>m\<close>, and Python's power is
  an \<open>m\<close>-th root: raised to \<open>m\<close> it gives the base back, also when it is complex.
\<close>

lemma float_pow_root:
  assumes "0 < m" and "float_pow x (1 / real m) = Inr u"
  shows "u ^ m = complex_of_real x"
proof -
  have y: "0 < 1 / real m" using assms(1) by simp
  have m: "real m * (1 / real m) = 1" using assms(1) by simp
  consider "0 < x" | "x = 0" | "x < 0" "m = 1" | "x < 0" "1 < m" using assms(1) by fastforce
  then show ?thesis
  proof cases
    case 1
    then have "u = complex_of_real (x powr (1 / real m))"
      using assms(2) y by (simp add: float_pow_def)
    moreover have "(x powr (1 / real m)) ^ m = x powr (real m * (1 / real m))"
      using 1 by (intro powr_power) simp
    then have "(x powr (1 / real m)) ^ m = x"
      unfolding m using 1 by simp
    ultimately show ?thesis by (simp flip: of_real_power)
  next
    case 2
    then have "u = 0" using assms(2) y by (simp add: float_pow_def)
    with 2 assms(1) show ?thesis by simp
  next
    case 3
    then show ?thesis using assms(2) by (simp add: float_pow_def)
  next
    case 4
    then have "\<lfloor>1 / real m\<rfloor> = 0"
      by (simp add: floor_eq_iff)
    then have frac: "real_of_int \<lfloor>1 / real m\<rfloor> \<noteq> 1 / real m"
      using assms(1) by simp
    with 4 have u: "u = complex_of_real (\<bar>x\<bar> powr (1 / real m)) * cis (pi * (1 / real m))"
      using assms(2) by (simp add: float_pow_def)
    have "(\<bar>x\<bar> powr (1 / real m)) ^ m = \<bar>x\<bar> powr (real m * (1 / real m))"
      using 4 by (intro powr_power) simp
    then have a: "(\<bar>x\<bar> powr (1 / real m)) ^ m = \<bar>x\<bar>"
      unfolding m using 4 by simp
    have "cis (pi * (1 / real m)) ^ m = cis (real m * (pi * (1 / real m)))"
      by (rule DeMoivre)
    also have "real m * (pi * (1 / real m)) = pi" using assms(1) by simp
    finally have b: "cis (pi * (1 / real m)) ^ m = - 1" by simp
    have "u ^ m = complex_of_real (\<bar>x\<bar> powr (1 / real m)) ^ m * cis (pi * (1 / real m)) ^ m"
      unfolding u by (rule power_mult_distrib)
    also have "\<dots> = complex_of_real ((\<bar>x\<bar> powr (1 / real m)) ^ m) * (- 1)"
      unfolding b by (simp only: of_real_power)
    also have "\<dots> = complex_of_real \<bar>x\<bar> * (- 1)"
      unfolding a ..
    also have "\<dots> = complex_of_real x"
      using 4 by simp
    finally show ?thesis .
  qed
qed

lemma update_step_one_batch:
  assumes "loader_len ld = 1"
  shows "update_step ld init final = Inl ZeroDivisionError"
  using assms by (simp add: update_step_def truediv_def number_in_epoch_def)

lemma geometric_increasing:
  fixes a q :: real
  assumes "(0 < a \<and> 1 < q) \<or> (a < 0 \<and> 0 < q \<and> q < 1)"
  shows "sorted_wrt (<) (map (\<lambda>i. a * q ^ i) [0..<n])"
proof -
  have step: "a * q ^ i < a * q ^ j" if "i < j" for i j :: nat
  proof -
    from assms show ?thesis
    proof
      assume "0 < a \<and> 1 < q"
      then show ?thesis using that by (simp add: power_strict_increasing)
    next
      assume "a < 0 \<and> 0 < q \<and> q < 1"
      then have "q ^ j < q ^ i" using that by (simp add: power_strict_decreasing)
      then show ?thesis using \<open>a < 0 \<and> 0 < q \<and> q < 1\<close> by (simp add: mult_less_cancel_left)
    qed
  qed
  have "sorted_wrt (\<lambda>i j. a * q ^ i < a * q ^ j) [0..<n]"
    by (rule sorted_wrt_mono_rel [OF _ sorted_wrt_upt]) (simp add: step)
  then show ?thesis by (simp add: sorted_wrt_map)
qed

lemma sweep_ratio:
  fixes init final :: real
  assumes "init \<noteq> 0" and "0 < final / init" and "init < final" and "0 < (e::real)"
  shows "(0 < init \<and> 1 < (final / init) powr e) \<or>
         (init < 0 \<and> 0 < (final / init) powr e \<and> (final / init) powr e < 1)"
proof (cases "0 < init")
  case True
  with assms(3) have "1 < final / init" by simp
  then have "1 < (final / init) powr e" using assms(4) by simp
  with True show ?thesis by simp
next
  case False
  with assms(1) have neg: "init < 0" by simp
  with assms(2) have "final < 0" by (simp add: zero_less_divide_iff)
  with neg assms(3) have "final / init < 1" by (simp add: divide_less_eq)
  then have "(final / init) powr e < 1"
    using assms(2,4) by (simp add: powr01_less_one)
  moreover have "0 < (final / init) powr e" using neg \<open>final < 0\<close> by simp
  ultimately show ?thesis using neg by simp
qed

lemma sweep_last:
  fixes init final :: real
  assumes "init \<noteq> 0" and "0 < final / init" and "2 \<le> (n::nat)"
  shows "init * ((final / init) powr (1 / real (n - 1))) ^ (n - 1) = final"
proof -
  define r where "r = final / init"
  have r: "0 < r" using assms(2) by (simp add: r_def)
  then have "r \<noteq> 0" by simp
  then have "(r powr (1 / real (n - 1))) ^ (n - 1) = r powr (real (n - 1) * (1 / real (n - 1)))"
    by (rule powr_power)
  also have "real (n - 1) * (1 / real (n - 1)) = 1" using assms(3) by simp
  finally have "(r powr (1 / real (n - 1))) ^ (n - 1) = r" using r by simp
  then show ?thesis using assms(1) by (simp add: r_def)
qed

lemma powr_4_half: "(4::real) powr (1 / 2) = 2"
  by (simp add: powr_half_sqrt)

lemma py_slice_10_5:
  assumes "20 < length xs"
  shows "py_slice xs 10 (- 5) = rev (drop 5 (rev (drop 10 xs)))"
proof -
  have "rev (drop 5 (rev ys)) = take (length ys - 5) ys" for ys :: "'a list"
    by (simp add: rev_drop)
  from this [of "drop 10 xs"]
  have "rev (drop 5 (rev (drop 10 xs))) = take (length xs - 10 - 5) (drop 10 xs)"
    by simp
  also have "\<dots> = drop 10 (take (length xs - 5) xs)"
    by (simp add: drop_take)
  also have "\<dots> = py_slice xs 10 (- 5)"
    using assms by (simp add: py_slice_def Let_def nat_diff_distrib)
  finally show ?thesis by simp
qed

lemma find_lr_loop_lengths:
  "find_lr_loop fw u bs s = (k, s') \<Longrightarrow> length (log_lrs s) = length (losses s) \<Longrightarrow>
     length (log_lrs s') = length (losses s')"
proof (cases k)
  case Exploded
  assume "find_lr_loop fw u bs s = (k, s')" "length (log_lrs s) = length (losses s)"
  with Exploded find_lr_loop_Exploded [of fw u bs s s'] show ?thesis by auto
next
  case Exhausted
  assume "find_lr_loop fw u bs s = (k, s')" "length (log_lrs s) = length (losses s)"
  with Exhausted find_lr_loop_Exhausted [of fw u bs s s'] show ?thesis by auto
qed

text \<open>
  However \<open>find_lr\<close> ends, it has called the model on an initial stretch of the batches,
  once each and in order.
\<close>

lemma find_lr_visits:
  "(\<exists>e. find_lr fw ld init final w = Inl (e, w)) \<or>
         (\<exists>w' lrs ls m. find_lr fw ld init final w = Inr (w', lrs, ls) \<and>
            m \<le> loader_len ld \<and>
            forwarded (calls w') = forwarded (calls w) @ map (map fst) (take m (batches ld 0)) \<and>
            count_list (calls w') ZeroGrad = count_list (calls w) ZeroGrad + m)"
proof (cases "update_step ld init final")
  case (Inl e)
  then have "find_lr fw ld init final w = Inl (e, w)"
    by (simp add: find_lr_def find_lr_run_def)
  then show ?thesis by (intro disjI1 exI [of _ e])
next
  case (Inr u)
  let ?s0 = "\<lparr>lr = init, best_loss = 0, batch_num = 0, losses = [], log_lrs = [],
              hist = calls w @ [SetLr init]\<rparr>"
  obtain k s where loop: "find_lr_loop fw u (batches ld 0) ?s0 = (k, s)"
    by (cases "find_lr_loop fw u (batches ld 0) ?s0") auto
  with Inr have run: "find_lr_run fw ld init final w = Inr (k, s)"
    by (simp add: find_lr_run_def)
  define lrs where "lrs = (if 20 < length (log_lrs s) then py_slice (log_lrs s) 10 (- 5)
    else log_lrs s)"
  define ls where "ls = (if 20 < length (log_lrs s) then py_slice (losses s) 10 (- 5)
    else losses s)"
  have ret: "find_lr fw ld init final w = Inr (w\<lparr>calls := hist s\<rparr>, lrs, ls)"
    using run by (cases k) (simp_all add: find_lr_def lrs_def ls_def)
  have "\<exists>m\<le>loader_len ld.
      forwarded (hist s) = forwarded (calls w) @ map (map fst) (take m (batches ld 0)) \<and>
      count_list (hist s) ZeroGrad = count_list (calls w) ZeroGrad + m"
  proof (cases k)
    case Exploded
    from find_lr_loop_Exploded [OF loop [unfolded Exploded]] obtain m where
      "m < loader_len ld"
      "forwarded (hist s) = forwarded (hist ?s0) @ map (map fst) (take (Suc m) (batches ld 0))"
      "count_list (hist s) ZeroGrad = count_list (hist ?s0) ZeroGrad + Suc m"
      by (elim exE conjE) (rule that)
    then show ?thesis
      by (intro exI [of _ "Suc m"]) (simp add: forwarded_append)
  next
    case Exhausted
    from find_lr_loop_Exhausted_seen [OF loop [unfolded Exhausted]]
    show ?thesis
      by (intro exI [of _ "loader_len ld"]) (simp add: forwarded_append)
  qed
  then obtain m where "m \<le> loader_len ld"
    "forwarded (hist s) = forwarded (calls w) @ map (map fst) (take m (batches ld 0))"
    "count_list (hist s) ZeroGrad = count_list (calls w) ZeroGrad + m"
    by (elim exE conjE) (rule that)
  with ret have "\<exists>w' lrs ls m. find_lr fw ld init final w = Inr (w', lrs, ls) \<and>
            m \<le> loader_len ld \<and>
            forwarded (calls w') = forwarded (calls w) @ map (map fst) (take m (batches ld 0)) \<and>
            count_list (calls w') ZeroGrad = count_list (calls w) ZeroGrad + m"
    by (intro exI [of _ "w\<lparr>calls := hist s\<rparr>"] exI [of _ lrs] exI [of _ ls] exI [of _ m]) simp
  then show ?thesis by (rule disjI2)
qed

lemma find_lr_returns:
  assumes "update_step ld init final = Inr u"
  shows "\<exists>w' lrs ls. find_lr fw ld init final w = Inr (w', lrs, ls)"
proof -
  obtain k s where "find_lr_run fw ld init final w = Inr (k, s)"
    using assms by (simp add: find_lr_run_def) (metis surj_pair)
  then show ?thesis
    by (cases k) (simp_all add: find_lr_def)
qed

section \<open>Lemmas about substrings and freezing\<close>

lemma prefix_take_iff: "take (length sub) s = sub \<longleftrightarrow> (\<exists>v. s = sub @ v)"
proof
  assume "take (length sub) s = sub"
  then have "s = sub @ drop (length sub) s"
    by (metis append_take_drop_id)
  then show "\<exists>v. s = sub @ v" ..
next
  assume "\<exists>v. s = sub @ v"
  then show "take (length sub) s = sub" by auto
qed

text \<open>\<open>str_in\<close> decides whether the string has the substring somewhere.\<close>

lemma str_in_iff: "str_in sub s \<longleftrightarrow> (\<exists>u v. s = u @ sub @ v)"
proof (induction s)
  case Nil
  then show ?case by auto
next
  case (Cons c s)
  have "(\<exists>u v. c # s = u @ sub @ v) \<longleftrightarrow> (\<exists>v. c # s = sub @ v) \<or> (\<exists>u v. s = u @ sub @ v)"
  proof
    assume "\<exists>u v. c # s = u @ sub @ v"
    then obtain u v where uv: "c # s = u @ sub @ v" by blast
    show "(\<exists>v. c # s = sub @ v) \<or> (\<exists>u v. s = u @ sub @ v)"
    proof (cases u)
      case Nil
      with uv show ?thesis by auto
    next
      case (Cons a u')
      with uv have "s = u' @ sub @ v" by simp
      then show ?thesis by blast
    qed
  next
    assume "(\<exists>v. c # s = sub @ v) \<or> (\<exists>u v. s = u @ sub @ v)"
    then show "\<exists>u v. c # s = u @ sub @ v"
    proof
      assume "\<exists>v. c # s = sub @ v"
      then obtain v where "c # s = [] @ sub @ v" by auto
      then show ?thesis by blast
    next
      assume "\<exists>u v. s = u @ sub @ v"
      then obtain u v where "c # s = (c # u) @ sub @ v" by auto
      then show ?thesis by blast
    qed
  qed
  then show ?case
    using Cons.IH prefix_take_iff [of sub "c # s"] by simp
qed

lemma freeze_length: "length (freeze ps) = length ps"
  by (induction ps) simp_all

lemma freeze_nth:
  "i < length ps \<Longrightarrow>
     freeze ps ! i =
       (if \<not> str_in ''bn'' (name (ps ! i)) then (ps ! i)\<lparr>requires_grad := False\<rparr> else ps ! i)"
proof (induction ps arbitrary: i)
  case Nil
  then show ?case by simp
next
  case (Cons p ps)
  then show ?case by (cases i) simp_all
qed

lemma new_fc_no_bn: "p \<in> set new_fc \<Longrightarrow> \<not> str_in ''bn'' (name p) \<and> requires_grad p"
  by (auto simp add: new_fc_def)

text \<open>
  What the freezing loop does, in terms of names.  Let every pretrained parameter be
  trainable when the network is loaded.  After the loop each parameter has kept its
  name, and its \<open>requires_grad\<close> is False if and only if its name does not contain
  \<open>bn\<close>.  After the new head is assigned to \<open>fc\<close>, the head's parameters are among the
  network's parameters and trainable, and the trainable parameters are exactly those
  whose name contains \<open>bn\<close> and those of the new head.
\<close>

lemma freeze_by_name:
  assumes "\<forall>p\<in>set ps. requires_grad p"
  shows "length (freeze ps) = length ps \<and>
         (\<forall>i<length ps.
            name (freeze ps ! i) = name (ps ! i) \<and>
            (\<not> requires_grad (freeze ps ! i) \<longleftrightarrow> \<not> (\<exists>u v. name (ps ! i) = u @ ''bn'' @ v))) \<and>
         (\<forall>p\<in>set new_fc. p \<in> set (replace_fc (freeze ps)) \<and> requires_grad p) \<and>
         (\<forall>p\<in>set (replace_fc (freeze ps)).
            requires_grad p \<longleftrightarrow> (\<exists>u v. name p = u @ ''bn'' @ v) \<or> p \<in> set new_fc)"
proof (intro conjI allI impI ballI)
  show "length (freeze ps) = length ps" by (rule freeze_length)
next
  fix i assume i: "i < length ps"
  then show "name (freeze ps ! i) = name (ps ! i)"
    by (simp add: freeze_nth)
  from i assms have "requires_grad (ps ! i)" by simp
  with i show "\<not> requires_grad (freeze ps ! i) \<longleftrightarrow> \<not> (\<exists>u v. name (ps ! i) = u @ ''bn'' @ v)"
    unfolding str_in_iff [symmetric] by (simp add: freeze_nth)
next
  fix p assume "p \<in> set new_fc"
  then show "p \<in> set (replace_fc (freeze ps))" by (simp add: replace_fc_def)
  from \<open>p \<in> set new_fc\<close> show "requires_grad p" by (simp add: new_fc_no_bn)
next
  fix p assume p: "p \<in> set (replace_fc (freeze ps))"
  show "requires_grad p \<longleftrightarrow> (\<exists>u v. name p = u @ ''bn'' @ v) \<or> p \<in> set new_fc"
  proof (cases "p \<in> set new_fc")
    case True
    then show ?thesis unfolding str_in_iff [symmetric] by (simp add: new_fc_no_bn)
  next
    case False
    with p have "p \<in> set (freeze ps)" by (auto simp add: replace_fc_def)
    then obtain i where i: "i < length ps" "p = freeze ps ! i"
      by (auto simp add: in_set_conv_nth freeze_length)
    from i assms have "requires_grad (ps ! i)" by simp
    with i False show ?thesis
      unfolding str_in_iff [symmetric] by (simp add: freeze_nth)
  qed
qed

text \<open>Five parameters: a convolution is frozen, two \<open>bn\<close> parameters are not, the head is new.\<close>

lemma freeze_by_name_example:
  "list_all requires_grad resnet_ex \<and>
   replace_fc (freeze resnet_ex) =
     [\<lparr>name = ''conv1.weight'', requires_grad = False\<rparr>,
      \<lparr>name = ''bn1.weight'', requires_grad = True\<rparr>,
      \<lparr>name = ''layer1.0.bn2.bias'', requires_grad = True\<rparr>,
      \<lparr>name = ''fc.0.weight'', requires_grad = True\<rparr>,
      \<lparr>name = ''fc.0.bias'', requires_grad = True\<rparr>,
      \<lparr>name = ''fc.3.weight'', requires_grad = True\<rparr>,
      \<lparr>name = ''fc.3.bias'', requires_grad = True\<rparr>] \<and>
   length (freeze resnet_ex) = length resnet_ex \<and>
   \<not> requires_grad (freeze resnet_ex ! 0) \<and>
   \<not> (\<exists>u v. name (resnet_ex ! 0) = u @ ''bn'' @ v) \<and>
   requires_grad (freeze resnet_ex ! 2) \<and>
   (\<exists>u v. name (resnet_ex ! 2) = u @ ''bn'' @ v)"
proof -
  have all: "\<forall>p\<in>set resnet_ex. requires_grad p"
    by (simp add: resnet_ex_def)
  have ev: "replace_fc (freeze resnet_ex) =
     [\<lparr>name = ''conv1.weight'', requires_grad = False\<rparr>,
      \<lparr>name = ''bn1.weight'', requires_grad = True\<rparr>,
      \<lparr>name = ''layer1.0.bn2.bias'', requires_grad = True\<rparr>,
      \<lparr>name = ''fc.0.weight'', requires_grad = True\<rparr>,
      \<lparr>name = ''fc.0.bias'', requires_grad = True\<rparr>,
      \<lparr>name = ''fc.3.weight'', requires_grad = True\<rparr>,
      \<lparr>name = ''fc.3.bias'', requires_grad = True\<rparr>]"
    by (simp add: resnet_ex_def replace_fc_def new_fc_def)
  have f0: "\<not> requires_grad (freeze resnet_ex ! 0)" and f2: "requires_grad (freeze resnet_ex ! 2)"
    by (simp_all add: resnet_ex_def)
  note c = freeze_by_name [OF all]
  have len: "length (freeze resnet_ex) = length resnet_ex"
    by (rule c [THEN conjunct1])
  have i0: "0 < length resnet_ex" and i2: "2 < length resnet_ex"
    by (simp_all add: resnet_ex_def)
  have n0: "\<not> (\<exists>u v. name (resnet_ex ! 0) = u @ ''bn'' @ v)"
    using c [THEN conjunct2, THEN conjunct1, rule_format, OF i0] f0 by blast
  have n2: "\<exists>u v. name (resnet_ex ! 2) = u @ ''bn'' @ v"
    using c [THEN conjunct2, THEN conjunct1, rule_format, OF i2] f2 by blast
  from all ev len f0 n0 f2 n2 show ?thesis
    by (simp add: list_all_iff)
qed

section \<open>Evaluating the loops on concrete inputs\<close>

lemmas train_eval = train_def upt_rec train_epoch_def train_step_def val_step_def fw_ex_def w_ex_def
  model_def Let_def max_index_softmax_Cons torch_eq_def torch_sum_def

lemmas find_lr_eval = find_lr_def find_lr_run_def update_step_def number_in_epoch_def
  truediv_def float_pow_def fw_ex_def w_ex_def model_def Let_def py_slice_def

section \<open>Claims about the training loop\<close>

text \<open>
  C1 (as amended).  When \<open>len(train_loader.dataset)\<close> and \<open>len(val_loader.dataset)\<close>
  are not zero, the validation loader yields at least one sample in every epoch and the
  model has at least one output class, \<open>train\<close> returns after exactly \<open>epochs\<close> epochs:
  the calls it makes are, for each epoch from 0 to \<open>epochs - 1\<close>, \<open>model.train()\<close>, then
  for every batch the training loader yields in that epoch, in order, zero_grad, the
  forward pass, the loss, backward and the optimizer step, then \<open>model.eval()\<close> and the
  validation batches.  Each pass through the training loop body adds the loss times the
  number of samples of the batch to the running loss.
\<close>

theorem train_runs_every_epoch:
  assumes "dataset_len tr \<noteq> 0" and "dataset_len va \<noteq> 0"
    and "\<forall>k<epochs. val_examples (batches va k) \<noteq> 0"
    and "\<forall>h xs i. logits fw h xs i \<noteq> []"
  shows "(\<exists>w'. train fw tr va epochs w = Inr w' \<and>
            calls w' = calls w @ concat (map
              (\<lambda>k. ModelTrain # concat (map batch_calls (batches tr k)) @
                    ModelEval # concat (map val_calls (batches va k)))
              [0..<epochs])) \<and>
         train_loop fw (b # rest) (h, acc) =
           train_loop fw rest
             (h @ [ZeroGrad, Forward (map fst b), LossFn (map snd b), Backward, OptStep],
              acc + loss_fn fw (model fw (h @ [ZeroGrad]) (map fst b)) (map snd b)
                      * real (length b))"
proof -
  from assms obtain w' where w': "train fw tr va epochs w = Inr w'"
    using train_ok by blast
  have "calls w' = epoch_begin w tr va epochs"
    using train_Inr [OF w'] by simp
  also have "\<dots> = calls w @ concat (map
      (\<lambda>k. ModelTrain # concat (map batch_calls (batches tr k)) @
            ModelEval # concat (map val_calls (batches va k))) [0..<epochs])"
    unfolding epoch_begin_def by (simp add: epoch_calls_def [abs_def])
  finally show ?thesis
    using w' by (simp add: train_step_eq batch_calls_def batch_loss_def)
qed

text \<open>
  The hypotheses hold and the conclusion is met for three epochs of a training loader
  that yields its two batches in a different order from one epoch to the next.
\<close>

theorem train_runs_every_epoch_witness:
  "dataset_len ld_shuffle \<noteq> 0 \<and> dataset_len ld_val \<noteq> 0 \<and>
   val_examples (batches ld_val 0) \<noteq> 0 \<and> val_examples (batches ld_val 1) \<noteq> 0 \<and>
   val_examples (batches ld_val 2) \<noteq> 0 \<and>
   (\<exists>w'. train fw_ex ld_shuffle ld_val 3 w_ex = Inr w' \<and>
         calls w' = calls w_ex @ concat (map
              (\<lambda>k. ModelTrain # concat (map batch_calls (batches ld_shuffle k)) @
                    ModelEval # concat (map val_calls (batches ld_val k)))
              [0..<3]))"
proof -
  have a: "dataset_len ld_shuffle \<noteq> 0" "dataset_len ld_val \<noteq> 0"
    by (simp_all add: ld_shuffle_def ld_val_def)
  have b: "val_examples (batches ld_val k) \<noteq> 0" for k
    by (simp add: ld_val_def val_examples_def)
  have c: "\<forall>h xs i. logits fw_ex h xs i \<noteq> []"
    by (simp add: fw_ex_def)
  from train_runs_every_epoch [OF a _ c, of 3 w_ex] b a
  show ?thesis by blast
qed

text \<open>
  C1 as stated speaks of every pair of loaders.  With a validation loader over an empty
  dataset the first epoch ends in a \<open>ZeroDivisionError\<close> at
  \<open>valid_loss /= len(val_loader.dataset)\<close>: of the two epochs asked for, the training
  batches are processed once.
\<close>

theorem train_runs_every_epoch_counterexample:
  "train fw_ex ld1 ld_empty 2 w_ex =
     Inl (ZeroDivisionError,
          \<lparr>calls = [ModelTrain, ZeroGrad, Forward [0], LossFn [1], Backward, OptStep, ModelEval],
           stdout = []\<rparr>)"
  by (simp add: train_eval ld1_def ld_empty_def)



text \<open>
  C5 (as amended).  Under the same conditions as C1, \<open>train\<close> prints exactly one line for
  each epoch, \<open>epochs\<close> lines in all; line \<open>k\<close> carries the epoch index \<open>k\<close>, the training
  loss and the validation loss of that epoch, and as accuracy the number of validation
  samples of that epoch whose predicted class (the index of the first maximum of the
  softmaxed scores) equals the target, divided by the number of validation samples.
\<close>

theorem train_prints_each_epoch:
  assumes "dataset_len tr \<noteq> 0" and "dataset_len va \<noteq> 0"
    and "\<forall>k<epochs. val_examples (batches va k) \<noteq> 0"
    and "\<forall>h xs i. logits fw h xs i \<noteq> []"
  shows "\<exists>w'. train fw tr va epochs w = Inr w' \<and>
           length (stdout w') = length (stdout w) + epochs \<and>
           (\<forall>k<epochs. stdout w' ! (length (stdout w) + k) =
              \<lparr>line_epoch = k,
               line_training_loss =
                 train_loss_sum fw (epoch_begin w tr va k @ [ModelTrain]) (batches tr k)
                   / real (dataset_len tr),
               line_valid_loss =
                 val_loss_sum fw (eval_start (epoch_begin w tr va k) tr k) (batches va k)
                   / real (dataset_len va),
               line_accuracy =
                 real (val_correct fw (eval_start (epoch_begin w tr va k) tr k) (batches va k))
                   / real (val_examples (batches va k))\<rparr>)"
proof -
  from assms obtain w' where w': "train fw tr va epochs w = Inr w'"
    using train_ok by blast
  have out: "stdout w' = stdout w @
      map (\<lambda>k. expected_line fw tr va (epoch_begin w tr va k) k) [0..<epochs]"
    using train_Inr [OF w'] by simp
  have "length (stdout w') = length (stdout w) + epochs"
    unfolding out by simp
  moreover have "\<forall>k<epochs. stdout w' ! (length (stdout w) + k) =
      expected_line fw tr va (epoch_begin w tr va k) k"
    unfolding out by simp
  ultimately show ?thesis
    using w' by (simp add: expected_line_def)
qed

text \<open>
  Two epochs with three validation samples, two of them predicted right: the second line
  has epoch index 1 and accuracy 2/3.
\<close>

theorem train_prints_each_epoch_witness:
  "dataset_len ld1 \<noteq> 0 \<and> dataset_len ld_val \<noteq> 0 \<and>
   val_examples (batches ld_val 0) \<noteq> 0 \<and> val_examples (batches ld_val 1) \<noteq> 0 \<and>
   (\<exists>w'. train fw_ex ld1 ld_val 2 w_ex = Inr w' \<and>
         length (stdout w') = 2 \<and>
         line_epoch (stdout w' ! 1) = 1 \<and>
         line_accuracy (stdout w' ! 1) = 2 / 3)"
proof -
  have c: "val_correct fw_ex h (batches ld_val k) = 2" for h k
    by (simp add: val_correct_def val_hist_def correct_in_def predicted_right_def model_def
        fw_ex_def max_index_softmax_Cons upt_rec ld_val_def)
  have e: "val_examples (batches ld_val k) = 3" for k
    by (simp add: val_examples_def ld_val_def)
  have a: "dataset_len ld1 \<noteq> 0" "dataset_len ld_val \<noteq> 0"
    by (simp_all add: ld1_def ld_val_def)
  have b: "\<forall>k<2. val_examples (batches ld_val k) \<noteq> 0" by (simp add: e)
  have d: "\<forall>h xs i. logits fw_ex h xs i \<noteq> []" by (simp add: fw_ex_def)
  from train_prints_each_epoch [OF a b d, of w_ex]
  obtain w' where w': "train fw_ex ld1 ld_val 2 w_ex = Inr w'"
    and n: "length (stdout w') = length (stdout w_ex) + 2"
    and l: "\<forall>k<2. stdout w' ! (length (stdout w_ex) + k) =
              \<lparr>line_epoch = k,
               line_training_loss =
                 train_loss_sum fw_ex (epoch_begin w_ex ld1 ld_val k @ [ModelTrain]) (batches ld1 k)
                   / real (dataset_len ld1),
               line_valid_loss =
                 val_loss_sum fw_ex (eval_start (epoch_begin w_ex ld1 ld_val k) ld1 k)
                     (batches ld_val k)
                   / real (dataset_len ld_val),
               line_accuracy =
                 real (val_correct fw_ex (eval_start (epoch_begin w_ex ld1 ld_val k) ld1 k)
                     (batches ld_val k))
                   / real (val_examples (batches ld_val k))\<rparr>"
    by (elim exE conjE) (rule that)
  from l [rule_format, of 1] have "line_epoch (stdout w' ! 1) = 1"
    "line_accuracy (stdout w' ! 1) = 2 / 3"
    by (simp_all add: w_ex_def c e)
  with w' n a e show ?thesis by (simp add: w_ex_def)
qed

text \<open>
  C5 as stated speaks of every call.  A validation loader that yields no batch (a dataset
  of three samples, say, with a larger batch size and \<open>drop_last\<close>) leaves
  \<open>num_examples\<close> at zero, and the \<open>print\<close> of the first epoch raises
  \<open>ZeroDivisionError\<close> in \<open>num_correct / num_examples\<close>: no line is printed for one
  epoch asked for.
\<close>

theorem train_prints_each_epoch_counterexample:
  "train fw_ex ld1 ld_dropped 1 w_ex =
     Inl (ZeroDivisionError,
          \<lparr>calls = [ModelTrain, ZeroGrad, Forward [0], LossFn [1], Backward, OptStep, ModelEval],
           stdout = []\<rparr>)"
  by (simp add: train_eval ld1_def ld_dropped_def)

section \<open>Claims about the learning-rate range test\<close>

text \<open>
  C2 (as amended).  Let the loader yield \<open>n \<ge> 2\<close> batches, let \<open>init_value\<close> be nonzero
  and let \<open>find_lr\<close> leave its loop after the last batch (no early exit).  Then the rate
  recorded for batch \<open>i\<close> (counted from 1) is \<open>init_value * u ** (i - 1)\<close>, where \<open>u\<close> is
  what Python gives for \<open>(final_value / init_value) ** (1 / (n - 1))\<close>; it is the rate in
  force at that batch's optimizer step, since the calls made are the assignment of
  \<open>init_value\<close> and then, for each batch, its steps followed by the assignment of the
  next rate; and the rate recorded for the last batch is \<open>final_value\<close>.  When the two
  rates have the same sign, \<open>u\<close> is the real root and the rates are real; when moreover
  \<open>final_value > init_value\<close> they are strictly increasing.
\<close>

theorem find_lr_sweep:
  assumes "2 \<le> loader_len ld" and "init \<noteq> 0"
    and "find_lr_run fw ld init final w = Inr (Exhausted, s)"
  shows "\<exists>u. float_pow (final / init) (1 / real (loader_len ld - 1)) = Inr u \<and>
           log_lrs s =
             map (\<lambda>i. complex_of_real init * u ^ i) [0..<loader_len ld] \<and>
           hist s = calls w @ SetLr (complex_of_real init) #
             concat (map (\<lambda>i. sweep_calls (batches ld 0 ! i) (complex_of_real init * u ^ Suc i))
               [0..<loader_len ld]) \<and>
           last (log_lrs s) = complex_of_real final \<and>
           (0 < final / init \<longrightarrow>
              log_lrs s =
                map (\<lambda>i. complex_of_real
                       (init * ((final / init) powr (1 / real (loader_len ld - 1))) ^ i))
                  [0..<loader_len ld] \<and>
              (init < final \<longrightarrow>
                 sorted_wrt (<)
                   (map (\<lambda>i. init * ((final / init) powr (1 / real (loader_len ld - 1))) ^ i)
                      [0..<loader_len ld])))"
proof -
  define n where "n = loader_len ld"
  define e where "e = 1 / real (n - 1)"
  have n2: "2 \<le> n" using assms(1) by (simp add: n_def)
  then have e: "0 < e" by (simp add: e_def)
  then obtain u where u: "float_pow (final / init) e = Inr u"
    using float_pow_defined by blast
  have step: "update_step ld init final = Inr u"
    using update_step_eq [OF assms(1,2)] u by (simp add: e_def n_def)
  let ?s0 = "\<lparr>lr = complex_of_real init, best_loss = 0, batch_num = 0, losses = [],
              log_lrs = [], hist = calls w @ [SetLr (complex_of_real init)]\<rparr>"
  from assms(3) have loop: "find_lr_loop fw u (batches ld 0) ?s0 = (Exhausted, s)"
    by (simp add: find_lr_run_def step)
  from find_lr_loop_Exhausted [OF loop]
  have lrs: "log_lrs s = map (\<lambda>i. complex_of_real init * u ^ i) [0..<n]"
    and h: "hist s = calls w @ SetLr (complex_of_real init) #
      concat (map (\<lambda>i. sweep_calls (batches ld 0 ! i) (complex_of_real init * u ^ Suc i)) [0..<n])"
    by (simp_all add: n_def)
  have root: "u ^ (n - 1) = complex_of_real (final / init)"
    using n2 u by (intro float_pow_root) (simp_all add: e_def)
  have "[0..<n] \<noteq> []" using n2 by simp
  then have "last (log_lrs s) = complex_of_real init * u ^ (n - 1)"
    unfolding lrs using n2 by (simp add: last_map)
  also have "\<dots> = complex_of_real final"
    unfolding root using assms(2) by simp
  finally have lst: "last (log_lrs s) = complex_of_real final" .
  have pos: "log_lrs s = map (\<lambda>i. complex_of_real (init * ((final / init) powr e) ^ i)) [0..<n] \<and>
      (init < final \<longrightarrow> sorted_wrt (<) (map (\<lambda>i. init * ((final / init) powr e) ^ i) [0..<n]))"
    if r: "0 < final / init"
  proof
    have "float_pow (final / init) e = Inr (complex_of_real ((final / init) powr e))"
      using r e by (intro float_pow_nonneg) simp_all
    with u have "u = complex_of_real ((final / init) powr e)" by simp
    then show "log_lrs s = map (\<lambda>i. complex_of_real (init * ((final / init) powr e) ^ i)) [0..<n]"
      unfolding lrs by simp
    show "init < final \<longrightarrow> sorted_wrt (<) (map (\<lambda>i. init * ((final / init) powr e) ^ i) [0..<n])"
      using e by (intro impI geometric_increasing sweep_ratio assms(2) r)
  qed
  from u lrs h lst pos show ?thesis
    unfolding e_def n_def by (intro exI [of _ u] conjI impI) simp_all
qed

text \<open>Three batches from 1 to 4: the rates 1, 2, 4.\<close>

theorem find_lr_sweep_witness:
  "2 \<le> loader_len ld3 \<and> (1::real) \<noteq> 0 \<and>
   find_lr_run fw_ex ld3 1 4 w_ex =
     Inr (Exhausted,
          \<lparr>lr = 8, best_loss = 1, batch_num = 3, losses = [1, 1, 1], log_lrs = [1, 2, 4],
           hist = [SetLr 1,
                   ZeroGrad, Forward [0], LossFn [1], Backward, OptStep, SetLr 2,
                   ZeroGrad, Forward [1], LossFn [1], Backward, OptStep, SetLr 4,
                   ZeroGrad, Forward [2], LossFn [1], Backward, OptStep, SetLr 8]\<rparr>) \<and>
   last [1, 2, 4] = complex_of_real 4 \<and>
   [1, 2, 4] =
     map (\<lambda>i. complex_of_real (1 * ((4 / 1) powr (1 / real (loader_len ld3 - 1))) ^ i))
       [0..<loader_len ld3] \<and>
   sorted_wrt (<)
     (map (\<lambda>i. 1 * ((4 / 1) powr (1 / real (loader_len ld3 - 1))) ^ i)
        [0..<loader_len ld3])"
proof -
  let ?s = "\<lparr>lr = 8, best_loss = 1, batch_num = 3, losses = [1, 1, 1], log_lrs = [1, 2, 4],
           hist = [SetLr 1,
                   ZeroGrad, Forward [0], LossFn [1], Backward, OptStep, SetLr 2,
                   ZeroGrad, Forward [1], LossFn [1], Backward, OptStep, SetLr 4,
                   ZeroGrad, Forward [2::nat], LossFn [1], Backward, OptStep, SetLr 8]\<rparr>"
  have run: "find_lr_run fw_ex ld3 1 4 w_ex = Inr (Exhausted, ?s)"
    by (simp add: find_lr_eval ld3_def powr_4_half)
  have len: "2 \<le> loader_len ld3" by (simp add: ld3_def)
  have h2: "(1::real) \<noteq> 0" and h3: "(0::real) < 4 / 1" and lt: "(1::real) < 4"
    by simp_all
  have sel: "log_lrs ?s = [1, 2, 4]" by simp
  from find_lr_sweep [OF len h2 run, unfolded sel]
  obtain u :: complex where a: "last [1, 2, 4] = complex_of_real 4"
    and b: "0 < (4::real) / 1 \<longrightarrow>
      [1, 2, 4] =
        map (\<lambda>i. complex_of_real (1 * ((4 / 1) powr (1 / real (loader_len ld3 - 1))) ^ i))
          [0..<loader_len ld3] \<and>
      ((1::real) < 4 \<longrightarrow>
        sorted_wrt (<)
          (map (\<lambda>i. 1 * ((4 / 1) powr (1 / real (loader_len ld3 - 1))) ^ i)
             [0..<loader_len ld3]))"
    by (elim exE conjE) (rule that)
  from b [THEN mp, OF h3] have c: "[1, 2, 4] =
        map (\<lambda>i. complex_of_real (1 * ((4 / 1) powr (1 / real (loader_len ld3 - 1))) ^ i))
          [0..<loader_len ld3]"
    and d: "sorted_wrt (<)
          (map (\<lambda>i. 1 * ((4 / 1) powr (1 / real (loader_len ld3 - 1))) ^ i)
             [0..<loader_len ld3])"
    using lt by blast+
  from len h2 run a c d show ?thesis by (intro conjI)
qed

text \<open>
  C2 as stated puts no condition on the two rates.  From \<open>init_value = -1\<close> to
  \<open>final_value = 0\<close> over three batches of equal loss there is no early exit and
  \<open>final_value > init_value\<close>, yet \<open>update_step\<close> is 0 and the recorded rates are -1, 0, 0:
  not strictly increasing.  (With \<open>init_value = 0\<close> the function raises
  \<open>ZeroDivisionError\<close> before it records anything.)
\<close>

theorem find_lr_sweep_counterexample:
  "find_lr_run fw_ex ld3 (- 1) 0 w_ex =
     Inr (Exhausted,
          \<lparr>lr = 0, best_loss = 1, batch_num = 3, losses = [1, 1, 1],
           log_lrs = map complex_of_real [- 1, 0, 0],
           hist = [SetLr (- 1),
                   ZeroGrad, Forward [0], LossFn [1], Backward, OptStep, SetLr 0,
                   ZeroGrad, Forward [1], LossFn [1], Backward, OptStep, SetLr 0,
                   ZeroGrad, Forward [2], LossFn [1], Backward, OptStep, SetLr 0]\<rparr>) \<and>
   (- 1 :: real) < 0 \<and> \<not> sorted_wrt (<) [- 1, 0, 0 :: real]"
  by (simp add: find_lr_eval ld3_def)





text \<open>
  C7.  On a loader of at least two batches \<open>find_lr\<close> ends in one of two ways.  When
  \<open>init_value\<close> is zero it raises \<open>ZeroDivisionError\<close> while computing \<open>update_step\<close>,
  before any batch and with no call made.  Otherwise it returns, after
  \<open>m \<le> len(train_loader)\<close> batch steps: it has called zero_grad \<open>m\<close> times and the model on
  the first \<open>m\<close> batches, once each and in order, which is a single pass over the loader.
  The loop is a recursion over the finite list of batches, so it always ends.
\<close>

theorem find_lr_one_pass:
  assumes "2 \<le> loader_len ld"
  shows "(init = 0 \<longrightarrow> find_lr fw ld init final w = Inl (ZeroDivisionError, w)) \<and>
         (init \<noteq> 0 \<longrightarrow>
            (\<exists>w' lrs ls m. find_lr fw ld init final w = Inr (w', lrs, ls) \<and>
               m \<le> loader_len ld \<and>
               forwarded (calls w') =
                 forwarded (calls w) @ map (map fst) (take m (batches ld 0)) \<and>
               count_list (calls w') ZeroGrad = count_list (calls w) ZeroGrad + m))"
proof (intro conjI impI)
  assume "init = 0"
  then show "find_lr fw ld init final w = Inl (ZeroDivisionError, w)"
    by (simp add: find_lr_def find_lr_run_def update_step_def truediv_def)
next
  assume init: "init \<noteq> 0"
  have "0 < 1 / real (loader_len ld - 1)" using assms by simp
  then obtain u where "update_step ld init final = Inr u"
    unfolding update_step_eq [OF assms init] using float_pow_defined by blast
  then obtain w' lrs ls where "find_lr fw ld init final w = Inr (w', lrs, ls)"
    using find_lr_returns by blast
  with find_lr_visits [of fw ld init final w]
  show "\<exists>w' lrs ls m. find_lr fw ld init final w = Inr (w', lrs, ls) \<and>
               m \<le> loader_len ld \<and>
               forwarded (calls w') =
                 forwarded (calls w) @ map (map fst) (take m (batches ld 0)) \<and>
               count_list (calls w') ZeroGrad = count_list (calls w) ZeroGrad + m"
    by simp
qed

text \<open>The three-batch loader with rates from 1 to 4 meets the hypotheses.\<close>

theorem find_lr_one_pass_witness:
  "2 \<le> loader_len ld3 \<and> (1::real) \<noteq> 0 \<and>
   (\<exists>w' lrs ls m. find_lr fw_ex ld3 1 4 w_ex = Inr (w', lrs, ls) \<and>
       m \<le> loader_len ld3 \<and>
       forwarded (calls w') = forwarded (calls w_ex) @ map (map fst) (take m (batches ld3 0)) \<and>
       count_list (calls w') ZeroGrad = count_list (calls w_ex) ZeroGrad + m)"
proof -
  have len: "2 \<le> loader_len ld3" by (simp add: ld3_def)
  have h: "(1::real) \<noteq> 0" by simp
  note c = find_lr_one_pass [OF len, where fw = fw_ex and init = 1 and final = 4 and w = w_ex]
  from len h c [THEN conjunct2, THEN mp, OF h]
  show ?thesis by (intro conjI)
qed

text \<open>
  C8.  Whenever \<open>find_lr\<close> returns, by the return inside the loop or by the one after it,
  the two lists it returns have the same length: the lists of recorded rates and losses
  have the same length, and the function returns both with their first 10 and last 5
  entries dropped when more than 20 entries were recorded, and both in full otherwise.
\<close>

theorem find_lr_returns_slices:
  assumes "find_lr fw ld init final w = Inr (w', lrs, ls)"
  shows "length lrs = length ls \<and>
         (\<exists>k s. find_lr_run fw ld init final w = Inr (k, s) \<and>
            length (log_lrs s) = length (losses s) \<and>
            (20 < length (log_lrs s) \<longrightarrow>
               lrs = rev (drop 5 (rev (drop 10 (log_lrs s)))) \<and>
               ls = rev (drop 5 (rev (drop 10 (losses s))))) \<and>
            (length (log_lrs s) \<le> 20 \<longrightarrow> lrs = log_lrs s \<and> ls = losses s))"
proof -
  from assms obtain k s where run: "find_lr_run fw ld init final w = Inr (k, s)"
    by (auto simp add: find_lr_def split: sum.splits)
  then obtain u where "find_lr_loop fw u (batches ld 0)
      \<lparr>lr = init, best_loss = 0, batch_num = 0, losses = [], log_lrs = [],
       hist = calls w @ [SetLr init]\<rparr> = (k, s)"
    by (auto simp add: find_lr_run_def split: sum.splits)
  then have len: "length (log_lrs s) = length (losses s)"
    by (rule find_lr_loop_lengths) simp
  have ret: "(lrs, ls) =
      (if 20 < length (log_lrs s)
       then (py_slice (log_lrs s) 10 (- 5), py_slice (losses s) 10 (- 5))
       else (log_lrs s, losses s))"
    using assms run by (cases k) (simp_all add: find_lr_def)
  show ?thesis
  proof (cases "20 < length (log_lrs s)")
    case True
    with ret len have "lrs = rev (drop 5 (rev (drop 10 (log_lrs s))))"
      and "ls = rev (drop 5 (rev (drop 10 (losses s))))"
      by (simp_all add: py_slice_10_5)
    with True len run show ?thesis by auto
  next
    case False
    with ret have "lrs = log_lrs s" "ls = losses s" by simp_all
    with False len run show ?thesis by auto
  qed
qed

text \<open>Twenty-six batches: 26 entries are recorded and entries 11 to 21 are returned.\<close>

theorem find_lr_returns_slices_witness:
  "find_lr fw_ex ld26 1 1 w_ex =
     Inr (\<lparr>calls = SetLr 1 # concat (map (\<lambda>i. sweep_calls [(i, 1)] 1) [0..<26]), stdout = []\<rparr>,
          replicate 11 1, replicate 11 1) \<and>
   length (replicate 11 (1::complex)) = length (replicate 11 (1::real)) \<and>
   (\<exists>k s. find_lr_run fw_ex ld26 1 1 w_ex = Inr (k, s) \<and>
      length (log_lrs s) = length (losses s) \<and>
      (20 < length (log_lrs s) \<longrightarrow>
         replicate 11 1 = rev (drop 5 (rev (drop 10 (log_lrs s)))) \<and>
         replicate 11 1 = rev (drop 5 (rev (drop 10 (losses s))))) \<and>
      (length (log_lrs s) \<le> 20 \<longrightarrow> replicate 11 1 = log_lrs s \<and> replicate 11 1 = losses s))"
proof -
  have run: "find_lr fw_ex ld26 1 1 w_ex =
     Inr (\<lparr>calls = SetLr 1 # concat (map (\<lambda>i. sweep_calls [(i, 1)] 1) [0..<26]), stdout = []\<rparr>,
          replicate 11 1, replicate 11 1)"
    by (simp add: find_lr_eval ld26_def upt_rec sweep_calls_def eval_nat_numeral)
  from find_lr_returns_slices [OF run] run show ?thesis
    by (intro conjI) (elim conjE, assumption)+
qed


text \<open>
  C10 (as amended).  \<open>number_in_epoch = len(train_loader) - 1\<close> is zero exactly when the
  loader yields one batch, and then \<open>update_step\<close> and with it \<open>find_lr\<close> raise
  \<open>ZeroDivisionError\<close>, whatever the two rates are.  With at least two batches the divisor
  is not zero and the exponent is \<open>1 / (len(train_loader) - 1)\<close>; \<open>update_step\<close> then
  raises \<open>ZeroDivisionError\<close> when \<open>init_value\<close>, its other divisor, is zero, and is
  well-defined otherwise; it is the real root when \<open>final_value / init_value\<close> is not
  negative.
\<close>

theorem update_step_division:
  "(number_in_epoch ld = 0 \<longleftrightarrow> loader_len ld = 1) \<and>
   (loader_len ld = 1 \<longrightarrow>
      update_step ld init final = Inl ZeroDivisionError \<and>
      find_lr fw ld init final w = Inl (ZeroDivisionError, w)) \<and>
   (2 \<le> loader_len ld \<longrightarrow>
      number_in_epoch ld \<noteq> 0 \<and>
      truediv 1 (real_of_int (number_in_epoch ld)) =
        Inr (1 / real (loader_len ld - 1)) \<and>
      (init = 0 \<longrightarrow> update_step ld init final = Inl ZeroDivisionError) \<and>
      (init \<noteq> 0 \<longrightarrow> (\<exists>u. update_step ld init final = Inr u)) \<and>
      (init \<noteq> 0 \<and> 0 \<le> final / init \<longrightarrow>
         update_step ld init final =
           Inr (complex_of_real ((final / init) powr (1 / real (loader_len ld - 1))))))"
proof (intro conjI impI)
  show "number_in_epoch ld = 0 \<longleftrightarrow> loader_len ld = 1"
    by (auto simp add: number_in_epoch_def)
next
  assume one: "loader_len ld = 1"
  then show u: "update_step ld init final = Inl ZeroDivisionError"
    by (rule update_step_one_batch)
  then show "find_lr fw ld init final w = Inl (ZeroDivisionError, w)"
    by (simp add: find_lr_def find_lr_run_def)
next
  assume two: "2 \<le> loader_len ld"
  then show "number_in_epoch ld \<noteq> 0"
    by (simp add: number_in_epoch_def)
  from two show "truediv 1 (real_of_int (number_in_epoch ld)) =
      Inr (1 / real (loader_len ld - 1))"
    by (rule exponent_value)
  show "update_step ld init final = Inl ZeroDivisionError" if "init = 0"
    using that by (simp add: update_step_def truediv_def)
  have "0 < 1 / real (loader_len ld - 1)" using two by simp
  then show "\<exists>u. update_step ld init final = Inr u" if "init \<noteq> 0"
    unfolding update_step_eq [OF two that] by (rule float_pow_defined)
  show "update_step ld init final =
      Inr (complex_of_real ((final / init) powr (1 / real (loader_len ld - 1))))"
    if "init \<noteq> 0 \<and> 0 \<le> final / init"
    using two that by (intro update_step_pos) simp_all
qed

text \<open>A loader of one batch, and the loader of three batches with rates from 1 to 4.\<close>

theorem update_step_division_witness:
  "loader_len ld1 = 1 \<and>
   update_step ld1 1 10 = Inl ZeroDivisionError \<and>
   find_lr fw_ex ld1 1 10 w_ex = Inl (ZeroDivisionError, w_ex) \<and>
   2 \<le> loader_len ld3 \<and> (1::real) \<noteq> 0 \<and> (0::real) \<le> 4 / 1 \<and>
   number_in_epoch ld3 \<noteq> 0 \<and>
   update_step ld3 1 4 =
     Inr (complex_of_real ((4 / 1) powr (1 / real (loader_len ld3 - 1))))"
proof -
  have one: "loader_len ld1 = 1" by (simp add: ld1_def)
  have two: "2 \<le> loader_len ld3" by (simp add: ld3_def)
  have h: "(1::real) \<noteq> 0 \<and> (0::real) \<le> 4 / 1" by simp
  note a = update_step_division [where ld = ld1 and init = 1 and final = 10 and fw = fw_ex
      and w = w_ex, THEN conjunct2, THEN conjunct1, THEN mp, OF one]
  note b = update_step_division [where ld = ld3 and init = 1 and final = 4,
      THEN conjunct2, THEN conjunct2, THEN mp, OF two]
  have b1: "number_in_epoch ld3 \<noteq> 0" by (rule b [THEN conjunct1])
  have b2: "update_step ld3 1 4 =
     Inr (complex_of_real ((4 / 1) powr (1 / real (loader_len ld3 - 1))))"
    by (rule b [THEN conjunct2, THEN conjunct2, THEN conjunct2, THEN conjunct2, THEN mp, OF h])
  from one a two h b1 b2
  show ?thesis by (intro conjI) (elim conjE, assumption)+
qed

text \<open>
  C10 as stated has \<open>update_step\<close> well-defined whenever the loader yields at least two
  batches.  With three batches and \<open>init_value = 0\<close> the division
  \<open>final_value / init_value\<close> raises \<open>ZeroDivisionError\<close>.
\<close>

theorem update_step_division_counterexample:
  "loader_len ld3 = 3 \<and>
   update_step ld3 0 10 = Inl ZeroDivisionError \<and>
   find_lr fw_ex ld3 0 10 w_ex = Inl (ZeroDivisionError, w_ex)"
  by (simp add: find_lr_eval ld3_def)

section \<open>Claims about freezing and about checking images\<close>

text \<open>
  C6.  The notebook explains the condition \<open>"bn" not in name\<close> of the freezing loop: it
  is preferable not to freeze the BatchNorm layers, so these are trained alongside the
  new classifier.  The loop tests the name only.  In the first block of \<open>resnet50\<close> the
  BatchNorm layers after the three convolutions are named \<open>bn1\<close>, \<open>bn2\<close>, \<open>bn3\<close> and stay
  trainable; the BatchNorm layer of the shortcut is named \<open>downsample.1\<close>, and the loop
  freezes its weight and its bias like those of the convolutions.
\<close>

theorem freeze_misses_downsample_batchnorm:
  "zip (map fst resnet50_layer1_0) (freeze (map snd resnet50_layer1_0)) =
     [(Conv2d, \<lparr>name = ''layer1.0.conv1.weight'', requires_grad = False\<rparr>),
      (BatchNorm2d, \<lparr>name = ''layer1.0.bn1.weight'', requires_grad = True\<rparr>),
      (BatchNorm2d, \<lparr>name = ''layer1.0.bn1.bias'', requires_grad = True\<rparr>),
      (Conv2d, \<lparr>name = ''layer1.0.conv2.weight'', requires_grad = False\<rparr>),
      (BatchNorm2d, \<lparr>name = ''layer1.0.bn2.weight'', requires_grad = True\<rparr>),
      (BatchNorm2d, \<lparr>name = ''layer1.0.bn2.bias'', requires_grad = True\<rparr>),
      (Conv2d, \<lparr>name = ''layer1.0.conv3.weight'', requires_grad = False\<rparr>),
      (BatchNorm2d, \<lparr>name = ''layer1.0.bn3.weight'', requires_grad = True\<rparr>),
      (BatchNorm2d, \<lparr>name = ''layer1.0.bn3.bias'', requires_grad = True\<rparr>),
      (Conv2d, \<lparr>name = ''layer1.0.downsample.0.weight'', requires_grad = False\<rparr>),
      (BatchNorm2d, \<lparr>name = ''layer1.0.downsample.1.weight'', requires_grad = False\<rparr>),
      (BatchNorm2d, \<lparr>name = ''layer1.0.downsample.1.bias'', requires_grad = False\<rparr>)] \<and>
   list_all requires_grad (map snd resnet50_layer1_0)"
  by (simp add: resnet50_layer1_0_def)

text \<open>
  C9.  Whatever \<open>Image.open\<close> does on a path, return an image or raise,
  \<open>check_image\<close> returns a Boolean and raises nothing: True exactly when \<open>Image.open\<close>
  returned, False exactly when it raised.
\<close>

theorem check_image_total:
  "(\<exists>b. check_image image_open path = Inr b) \<and>
   (check_image image_open path = Inr True \<longleftrightarrow> (\<exists>im. image_open path = Inr im)) \<and>
   (check_image image_open path = Inr False \<longleftrightarrow> (\<exists>e. image_open path = Inl e))"
  by (cases "image_open path") (auto simp add: check_image_def try_except_def)

text \<open>A file that opens and one that does not.\<close>

theorem check_image_total_witness:
  "image_open_ex ''cat.jpg'' = Inr 64 \<and>
   check_image image_open_ex ''cat.jpg'' = Inr True \<and>
   image_open_ex ''dog.txt'' = Inl ''FileNotFoundError'' \<and>
   check_image image_open_ex ''dog.txt'' = Inr False"
proof -
  have a: "image_open_ex ''cat.jpg'' = Inr 64"
    and b: "image_open_ex ''dog.txt'' = Inl ''FileNotFoundError''"
    by (simp_all add: image_open_ex_def)
  have "check_image image_open_ex ''cat.jpg'' = Inr True"
    using check_image_total [of image_open_ex "''cat.jpg''"] a by blast
  moreover have "check_image image_open_ex ''dog.txt'' = Inr False"
    using check_image_total [of image_open_ex "''dog.txt''"] b by blast
  ultimately show ?thesis using a b by simp
qed

end
